theory Spec2Isabelle
  imports Main "HOL-Library.AList" "HOL-Library.Word"
begin

section \<open>Python primitives shared by the two scripts\<close>

text \<open>
  Exceptions are values.  Every function of the scripts that can raise returns
  \<open>error + 'a\<close>, with \<open>Inl\<close> for the exception that ends the run; where the
  effects before the exception matter, the exception comes with the state they left.
\<close>

datatype error =
    TypeError
  | ValueError
  | AttributeError
  | UnboundLocalError
  | StopIteration
  | SystemExit
  | FileNotFoundError
  | KeyError
  | IndexError
  | StructError
  | OverflowError

text \<open>
  \<open>str(n)\<close> for a non-negative integer, and \<open>int(s)\<close> for a string.  Only plain
  strings of ASCII decimal digits are read as numbers; every other string is a
  \<open>ValueError\<close> (Python also accepts a sign, surrounding blanks and underscores,
  none of which the scripts ever pass to \<open>int\<close>).
\<close>

definition digit_char :: "nat \<Rightarrow> char" where
  "digit_char d = ''0123456789'' ! d"

fun str_nat :: "nat \<Rightarrow> string" where
  "str_nat n = (if n < 10 then [digit_char n] else str_nat (n div 10) @ [digit_char (n mod 10)])"

declare str_nat.simps [simp del]

definition is_digit :: "char \<Rightarrow> bool" where
  "is_digit c = (48 \<le> (of_char c :: nat) \<and> (of_char c :: nat) \<le> 57)"

definition digit_val :: "char \<Rightarrow> nat" where
  "digit_val c = of_char c - 48"

definition py_int :: "string \<Rightarrow> error + nat" where
  "py_int s =
     (if s \<noteq> [] \<and> list_all is_digit s
      then Inr (foldl (\<lambda>a c. 10 * a + digit_val c) 0 s)
      else Inl ValueError)"

text \<open>\<open>os.path.join(a, b)\<close> of \<open>posixpath\<close>, for two components.\<close>

definition path_join :: "string \<Rightarrow> string \<Rightarrow> string" where
  "path_join a b =
     (if b \<noteq> [] \<and> hd b = CHR ''/'' then b
      else if a = [] \<or> last a = CHR ''/'' then a @ b
      else a @ ''/'' @ b)"

text \<open>A configuration file as \<open>configparser\<close> reads it: the value of a key of a
  section, if there is one.\<close>

type_synonym ini = "string \<Rightarrow> string \<Rightarrow> string option"

section \<open>Pipeline A: copy\_fiscal\_year\_data.py\<close>

subsection \<open>The paginated report writer\<close>

definition ROWS_PER_FILE :: nat where
  "ROWS_PER_FILE = 49999"

text \<open>
  A cursor is the list of rows it has not handed out yet; \<open>fetchmany\<close> returns the
  next page and the advanced cursor.  The rows themselves are opaque to the writer
  (type \<open>'r\<close>).
\<close>

definition fetchmany :: "nat \<Rightarrow> 'r list \<Rightarrow> 'r list \<times> 'r list" where
  "fetchmany n cur = (take n cur, drop n cur)"

text \<open>
  The local file system maps a path to the file written there: the header row and the
  data rows handed to \<open>writer.writerow\<close>, in order.  The serialisation of a row by the
  \<open>csv\<close> module (delimiter, escaping) is below this model.  Opening a path with mode
  \<open>'w'\<close> replaces what was there.
\<close>

type_synonym 'r tsv_file = "string list \<times> 'r list"
type_synonym 'r local_fs = "string \<rightharpoonup> 'r tsv_file"

text \<open>\<open>make_writer\<close> returns the closure \<open>_inner\<close>; here the closure takes the file
  system and returns it updated, with the path it wrote.\<close>

definition make_writer ::
  "string list \<Rightarrow> string \<Rightarrow> string \<Rightarrow> string \<Rightarrow>
   'r list \<Rightarrow> string \<Rightarrow> 'r local_fs \<Rightarrow> string \<times> 'r local_fs" where
  "make_writer header local_directory company_name type_suffix =
     (let prefix = path_join local_directory company_name
      in (\<lambda>rows sequence_suffix fs.
            let pathname_out = prefix @ type_suffix @ sequence_suffix @ ''.tsv''
            in (pathname_out, fs(pathname_out \<mapsto> (header, rows)))))"

text \<open>The step at the bottom of the loop body: \<open>''\<close> becomes \<open>'2'\<close>, a numeral its
  successor.\<close>

definition next_suffix :: "string \<Rightarrow> error + string" where
  "next_suffix sequence_suffix =
     (if sequence_suffix = [] then Inr ''2''
      else case py_int sequence_suffix of
             Inl e \<Rightarrow> Inl e
           | Inr n \<Rightarrow> Inr (str_nat (n + 1)))"

text \<open>
  The \<open>while len(rows) > 0\<close> loop of \<open>create_reports\<close>.  Its state is the page in
  hand \<open>rows\<close>, the cursor, the current suffix, the file system and \<open>retval\<close>.
\<close>

function (sequential) write_pages ::
  "('r list \<Rightarrow> string \<Rightarrow> 'r local_fs \<Rightarrow> string \<times> 'r local_fs) \<Rightarrow> nat \<Rightarrow>
   'r list \<Rightarrow> 'r list \<Rightarrow> string \<Rightarrow> 'r local_fs \<Rightarrow> string list \<Rightarrow>
   error + ('r local_fs \<times> string list)" where
  "write_pages write_rows n rows cur sequence_suffix fs retval =
     (if length rows > 0 then
        (let (pathname_out, fs') = write_rows rows sequence_suffix fs;
             retval' = retval @ [pathname_out];
             (rows', cur') = fetchmany n cur
         in if length rows' = 0 then Inr (fs', retval')
            else case next_suffix sequence_suffix of
                   Inl e \<Rightarrow> Inl e
                 | Inr sequence_suffix' \<Rightarrow>
                     write_pages write_rows n rows' cur' sequence_suffix' fs' retval')
      else Inr (fs, retval))"
  by pat_completeness auto
termination
  by (relation "measure (\<lambda>(w, n, rows, cur, s, fs, rv). length cur)")
     (auto simp: fetchmany_def)

declare write_pages.simps [simp del]

text \<open>One report: the first fetch, then the loop.\<close>

definition write_report ::
  "string list \<Rightarrow> string \<Rightarrow> string \<Rightarrow> string \<Rightarrow> 'r list \<Rightarrow>
   'r local_fs \<Rightarrow> string list \<Rightarrow> error + ('r local_fs \<times> string list)" where
  "write_report header local_directory company_name type_suffix cur fs retval =
     (let write_rows = make_writer header local_directory company_name type_suffix;
          sequence_suffix = '''';
          (rows, cur') = fetchmany ROWS_PER_FILE cur
      in write_pages write_rows ROWS_PER_FILE rows cur' sequence_suffix fs retval)"



subsection \<open>The output converter for time stamps\<close>



text \<open>A \<open>datetime\<close> of the standard library: a date of the proleptic Gregorian
  calendar and a time of day.\<close>

record datetime =
  year :: nat
  month :: nat
  day :: nat
  hour :: nat
  minute :: nat
  second :: nat
  microsecond :: nat

text \<open>The calendar of \<open>datetime\<close>.  \<open>ord2ymd\<close> turns an ordinal (day 1 is
  1 January of year 1) into year, month and day: the year by the cycles of 400, 100, 4
  and 1 years, as the library does, the month by walking through the months of that
  year.\<close>

definition days_in_month :: "bool \<Rightarrow> nat \<Rightarrow> nat" where
  "days_in_month leap m =
     (if m = 2 then (if leap then 29 else 28)
      else if m = 4 \<or> m = 6 \<or> m = 9 \<or> m = 11 then 30
      else 31)"













subsection \<open>Companies, reports and the query\<close>

record CompanySpec =
  dbname :: string
  date_from :: string
  mda_columns :: "string list option"

record ReportSpec =
  table_name :: string
  suffix :: string
  has_mda_columns :: bool

text \<open>The dict \<open>COMPANIES\<close> of this script, in insertion order (the other script has a
  list of the same name, hence the suffix).\<close>

definition COMPANIES_A :: "(string \<times> CompanySpec) list" where
  "COMPANIES_A =
     [(''aflcio'',
       \<lparr>dbname = ''AFLCI'', date_from = ''2017-01-01'',
        mda_columns = Some
          [''Date'', ''Check #'', ''Commit ID'', ''Request ID'',
           ''LM2 Code'', ''LM2 Desc'', ''LM2 Amt'',
           ''Project Code'', ''Project Desc'', ''Project Amt'',
           ''Affiliate Code'', ''Affiliate Desc'', ''Affiliate Amt'',
           ''State Code'', ''State Desc'', ''State Amt'',
           ''Employee Code'', ''Employee Desc'', ''Employee Amt'',
           ''Period Code'', ''Period Desc'', ''Period Amt'',
           ''Other1 Code'', ''Other1 Amt'', ''Other1 Desc'',
           ''Other2 Code'', ''Other2 Amt'', ''Other2 Desc'',
           ''DEX_ROW_TS'', ''ORPSTDDT'', ''ACCT_ROW_ID'', ''GL_ROW_ID'',
           ''Jrn Entry'', ''SEQNUMBR'', ''ORTRXSRC'', ''Generation'']\<rparr>),
      (''cope'', \<lparr>dbname = ''PAC'', date_from = ''2014-01-01'', mda_columns = None\<rparr>),
      (''wpr'', \<lparr>dbname = ''WPR'', date_from = ''2014-01-01'', mda_columns = None\<rparr>)]"

definition REPORTS :: "ReportSpec list" where
  "REPORTS =
     [\<lparr>table_name = ''Poliops_MDA_View'', suffix = '''', has_mda_columns = True\<rparr>,
      \<lparr>table_name = ''S2_GL20_Poliops_exp'', suffix = ''_narrow'', has_mda_columns = False\<rparr>]"

text \<open>\<open>sep.join(items)\<close>.\<close>

fun join :: "string \<Rightarrow> string list \<Rightarrow> string" where
  "join sep [] = []"
| "join sep [x] = x"
| "join sep (x # y # ys) = x @ sep @ join sep (y # ys)"

definition make_query_text :: "CompanySpec \<Rightarrow> ReportSpec \<Rightarrow> string" where
  "make_query_text company_spec report_spec =
     (let columns =
            (case (has_mda_columns report_spec, mda_columns company_spec) of
               (True, Some cols) \<Rightarrow>
                 join ('',  '' @ [CHR 0x0A]) (map (\<lambda>col. ''['' @ col @ '']'') cols)
             | _ \<Rightarrow> ''*'')
      in ''SELECT '' @ columns @ [CHR 0x0A] @
         ''            FROM '' @ dbname company_spec @ ''.dbo.'' @ table_name report_spec @ [CHR 0x0A] @
         ''            WHERE [Date] >= Convert(datetime, ?, 120)'' @ [CHR 0x0A] @
         ''            ORDER BY dex_row_ts DESC'')"

subsection \<open>The run\<close>

text \<open>
  What the run does to the outside: the connection to the database, the statements
  executed, the SSH session and the remote copies, in order, and the local files.
  The database answers a statement and its parameters with the column names of
  \<open>cur.description\<close> and the rows of the cursor.
\<close>

datatype event =
    Connected string
  | Executed string "string list"
  | SshConnected string string string
  | RemoteCopied string string

record 'r world_A =
  events :: "event list"
  files :: "'r local_fs"

type_synonym 'r database = "string \<Rightarrow> string list \<Rightarrow> string list \<times> 'r list"

text \<open>\<open>get_configuration\<close> of this script: the local directory and the dict
  \<open>remote_specs\<close> over \<open>REMOTE_KEYS\<close>; a missing value prints the explanation and
  exits.\<close>

definition get_configuration_A :: "ini \<Rightarrow> error + (string \<times> (string \<times> string) list)" where
  "get_configuration_A config =
     (case (config ''local'' ''directory'', config ''remote'' ''host'',
            config ''remote'' ''user'', config ''remote'' ''keyname'') of
        (Some local_directory, Some h, Some u, Some k) \<Rightarrow>
          Inr (local_directory, [(''host'', h), (''user'', u), (''keyname'', k)])
      | _ \<Rightarrow> Inl SystemExit)"

text \<open>The values the argument of the second \<open>logging.debug\<close> is built from, and
  Python's \<open>+\<close> on them: two strings concatenate, a dict has no \<open>+\<close> with anything.\<close>

datatype pyval =
    PyStr string
  | PyDict "(string \<times> string) list"

fun py_add :: "pyval \<Rightarrow> pyval \<Rightarrow> error + pyval" where
  "py_add (PyStr a) (PyStr b) = Inr (PyStr (a @ b))"
| "py_add _ _ = Inl TypeError"

definition get_connection :: "'r world_A \<Rightarrow> 'r world_A" where
  "get_connection w = w\<lparr>events := events w @ [Connected ''gps'']\<rparr>"

text \<open>The body of \<open>for report_spec in REPORTS\<close>, with \<open>retval\<close> carried along.\<close>

fun create_reports_loop ::
  "string \<Rightarrow> 'r database \<Rightarrow> string \<Rightarrow> CompanySpec \<Rightarrow> ReportSpec list \<Rightarrow> string list \<Rightarrow>
   'r world_A \<Rightarrow> error + (string list \<times> 'r world_A)" where
  "create_reports_loop local_directory conn company_name company_spec [] retval w =
     Inr (retval, w)"
| "create_reports_loop local_directory conn company_name company_spec (report_spec # rest)
      retval w =
     (let query_text = make_query_text company_spec report_spec;
          params = [date_from company_spec @ '' 00:00:00.000''];
          w1 = w\<lparr>events := events w @ [Executed query_text params]\<rparr>;
          (header, cur) = conn query_text params
      in case write_report header local_directory company_name (suffix report_spec) cur
                (files w1) retval of
           Inl e \<Rightarrow> Inl e
         | Inr (fs, retval') \<Rightarrow>
             create_reports_loop local_directory conn company_name company_spec rest retval'
               (w1\<lparr>files := fs\<rparr>))"

definition create_reports ::
  "string \<Rightarrow> 'r database \<Rightarrow> string \<Rightarrow> CompanySpec \<Rightarrow> 'r world_A \<Rightarrow>
   error + (string list \<times> 'r world_A)" where
  "create_reports local_directory conn company_name company_spec w =
     create_reports_loop local_directory conn company_name company_spec REPORTS [] w"

text \<open>\<open>os.path.split(name)[1]\<close>: what follows the last slash.\<close>

definition basename :: "string \<Rightarrow> string" where
  "basename name = rev (takeWhile (\<lambda>c. c \<noteq> CHR ''/'') (rev name))"

definition copy_files :: "(string \<times> string) list \<Rightarrow> string list \<Rightarrow> 'r world_A \<Rightarrow> error + 'r world_A" where
  "copy_files remote_specs pathnames w =
     (case (map_of remote_specs ''host'', map_of remote_specs ''user'',
            map_of remote_specs ''keyname'') of
        (Some h, Some u, Some k) \<Rightarrow>
          Inr (w\<lparr>events := events w @ [SshConnected h u k]
                         @ map (\<lambda>name. RemoteCopied name (basename name)) pathnames\<rparr>)
      | _ \<Rightarrow> Inl KeyError)"

text \<open>The loop \<open>for company, spec in COMPANIES.items()\<close>.\<close>

fun all_reports ::
  "string \<Rightarrow> 'r database \<Rightarrow> (string \<times> CompanySpec) list \<Rightarrow> string list \<Rightarrow> 'r world_A \<Rightarrow>
   error + (string list \<times> 'r world_A)" where
  "all_reports local_directory conn [] pathnames_all w = Inr (pathnames_all, w)"
| "all_reports local_directory conn ((company, spec) # rest) pathnames_all w =
     (case create_reports local_directory conn company spec w of
        Inl e \<Rightarrow> Inl e
      | Inr (pathnames, w1) \<Rightarrow>
          all_reports local_directory conn rest (pathnames_all @ pathnames) w1)"

text \<open>The body of \<open>copy_fiscal_year_data\<close>.  The result is the world as the run left
  it and, when an exception ended the run, that exception.\<close>

definition copy_fiscal_year_data ::
  "ini \<Rightarrow> bool \<Rightarrow> 'r database \<Rightarrow> 'r world_A \<Rightarrow> 'r world_A \<times> error option" where
  "copy_fiscal_year_data config debugging conn_db w =
     (case get_configuration_A config of
        Inl e \<Rightarrow> (w, Some e)
      | Inr (local_directory, remote_specs) \<Rightarrow>
          (case py_add (PyStr ''remote specs are '') (PyDict remote_specs) of
             Inl e \<Rightarrow> (w, Some e)
           | Inr message \<Rightarrow>
               (let w1 = get_connection w
                in case all_reports local_directory conn_db COMPANIES_A [] w1 of
                     Inl e \<Rightarrow> (w1, Some e)
                   | Inr (pathnames_all, w2) \<Rightarrow>
                       (case copy_files remote_specs pathnames_all w2 of
                          Inl e \<Rightarrow> (w2, Some e)
                        | Inr w3 \<Rightarrow> (w3, None)))))"


section \<open>Pipeline B: get\_check\_files.py\<close>

subsection \<open>Data model\<close>

record Company =
  "abbreviation" :: string
  directory_name :: string

record FileSpec =
  remote_path :: string
  remote_path_old :: string
  local_path :: string
  share_path :: string

definition COMPANIES :: "Company list" where
  "COMPANIES =
     [\<lparr>abbreviation = ''afl'', directory_name = ''AFLCIO''\<rparr>,
      \<lparr>abbreviation = ''cope'', directory_name = ''COPE''\<rparr>,
      \<lparr>abbreviation = ''wpr'', directory_name = ''WPR''\<rparr>]"

text \<open>The rename table, as the dict literal lists it.\<close>

definition FIELD_MAPPINGS :: "(string \<times> string) list" where
  "FIELD_MAPPINGS =
     [(''FCC'', ''LM2''),
      (''Project Code'', ''PROJECTS''),
      (''State Code'', ''STATE''),
      (''Staffer ID'', ''EMPLOYEES''),
      (''CommitID'', ''COMMITID''),
      (''RequestID'', ''REQUESTID''),
      (''PP Code'', ''PROGRAM'')]"

text \<open>The audit rows \<open>RunRecorder\<close> inserts (the time stamp is the database's).\<close>

datatype transfer =
    FoundNotCopied string
  | Copied string nat

text \<open>
  The world the script acts on: the command lines sent to the remote host, in order;
  the audit rows; and the local files, each the list of rows written to it.
  The remote host answers a command line with the lines of its standard output.
\<close>

record world =
  issued :: "string list"
  transfers :: "transfer list"
  local_files :: "string \<rightharpoonup> string list list"

type_synonym host = "string \<Rightarrow> string list"

definition run_command :: "host \<Rightarrow> string \<Rightarrow> world \<Rightarrow> string list \<times> world" where
  "run_command client command_line w =
     (client command_line, w\<lparr>issued := issued w @ [command_line]\<rparr>)"

definition record_found_not_copied :: "string \<Rightarrow> world \<Rightarrow> world" where
  "record_found_not_copied pathname w =
     w\<lparr>transfers := transfers w @ [FoundNotCopied pathname]\<rparr>"

definition record_copy :: "string \<Rightarrow> nat \<Rightarrow> world \<Rightarrow> world" where
  "record_copy pathname data_records w =
     w\<lparr>transfers := transfers w @ [Copied pathname data_records]\<rparr>"

subsection \<open>Strings\<close>

text \<open>\<open>str.split()\<close> with no argument: the maximal runs of non-blank characters.
  A character is its code point, below 256; the blanks among these are the ones
  \<open>str.isspace\<close> knows: tab to carriage return, the four separators \<open>0x1c\<close> to
  \<open>0x1f\<close>, the space, next line \<open>0x85\<close> and the no-break space \<open>0xa0\<close>.\<close>

definition is_space :: "char \<Rightarrow> bool" where
  "is_space c =
     (let n = (of_char c :: nat)
      in (9 \<le> n \<and> n \<le> 13) \<or> (28 \<le> n \<and> n \<le> 32) \<or> n = 133 \<or> n = 160)"

fun split_from :: "string \<Rightarrow> string \<Rightarrow> string list" where
  "split_from tok [] = (if tok = [] then [] else [tok])"
| "split_from tok (c # cs) =
     (if is_space c then (if tok = [] then split_from [] cs else tok # split_from [] cs)
      else split_from (tok @ [c]) cs)"

definition split :: "string \<Rightarrow> string list" where
  "split line = split_from [] line"

text \<open>\<open>s.replace('\t', ' ')\<close>.\<close>

definition replace_tabs :: "string \<Rightarrow> string" where
  "replace_tabs s = map (\<lambda>c. if c = CHR 0x09 then CHR '' '' else c) s"

subsection \<open>Naming the prospective files\<close>

text \<open>The seven values \<open>get_configuration\<close> reads; a missing one ends the run
  (\<open>exit()\<close> after the logged error).\<close>

record settings =
  host_name :: string
  user :: string
  keyname :: string
  directory :: string
  done_directory :: string
  temp_directory :: string
  destination_directory :: string

definition get_configuration :: "ini \<Rightarrow> error + settings" where
  "get_configuration config_parser =
     (case (config_parser ''remote'' ''host'', config_parser ''remote'' ''user'',
            config_parser ''remote'' ''keyname'', config_parser ''remote'' ''directory'',
            config_parser ''remote'' ''done_directory'',
            config_parser ''local'' ''temp_directory'',
            config_parser ''local'' ''destination_directory'') of
        (Some h, Some u, Some k, Some d, Some dd, Some td, Some sd) \<Rightarrow>
          Inr \<lparr>host_name = h, user = u, keyname = k, directory = d, done_directory = dd,
               temp_directory = td, destination_directory = sd\<rparr>
      | _ \<Rightarrow> Inl SystemExit)"

text \<open>\<open>filename\<close> is the run's time stamp (\<open>%Y%m%d-%H%M\<close>) followed by \<open>.txt\<close>.\<close>

definition name_prospective_files :: "settings \<Rightarrow> string \<Rightarrow> Company list \<Rightarrow> FileSpec list" where
  "name_prospective_files specs filename companies =
     map (\<lambda>company.
            \<lparr>remote_path = path_join (directory specs) (''cr-'' @ abbreviation company @ ''.csv''),
             remote_path_old =
               path_join (done_directory specs) (''cr-'' @ abbreviation company @ ''.csv''),
             local_path =
               path_join (path_join (temp_directory specs) (directory_name company)) filename,
             share_path =
               path_join (path_join (destination_directory specs) (directory_name company))
                 filename\<rparr>)
         companies"

subsection \<open>The non-empty-file filter\<close>

text \<open>First loop: one copy of the spec per line that \<open>ls\<close> prints.\<close>

fun list_present :: "host \<Rightarrow> FileSpec list \<Rightarrow> world \<Rightarrow> FileSpec list \<times> world" where
  "list_present client [] w = ([], w)"
| "list_present client (spec # specs) w =
     (let (stdout, w1) = run_command client (''ls '' @ remote_path spec) w;
          (temp, w2) = list_present client specs w1
      in (replicate (length stdout) spec @ temp, w2))"

text \<open>Second loop: \<open>wc -l\<close>, the first line of its output, and the test on its parts.
  \<open>__next__\<close> on an output with no line raises \<open>StopIteration\<close>.  An exception
  comes with the world as the run left it.\<close>

fun count_lines ::
  "host \<Rightarrow> FileSpec list \<Rightarrow> world \<Rightarrow> (error \<times> world) + (FileSpec list \<times> world)" where
  "count_lines client [] w = Inr ([], w)"
| "count_lines client (spec # specs) w =
     (let (stdout, w1) = run_command client (''wc -l '' @ remote_path spec) w
      in case stdout of
           [] \<Rightarrow> Inl (StopIteration, w1)
         | line # _ \<Rightarrow>
             (let parts = split line
              in if length parts = 2 \<and> parts ! 0 \<noteq> ''1'' then
                   (case count_lines client specs w1 of
                      Inl e \<Rightarrow> Inl e
                    | Inr (retval, w2) \<Rightarrow> Inr (spec # retval, w2))
                 else count_lines client specs (record_found_not_copied (remote_path spec) w1)))"

definition available_non_empty_files ::
  "host \<Rightarrow> FileSpec list \<Rightarrow> world \<Rightarrow> (error \<times> world) + (FileSpec list \<times> world)" where
  "available_non_empty_files client prospective_files w =
     (let (temp, w1) = list_present client prospective_files w
      in count_lines client temp w1)"


subsection \<open>The CSV-to-TSV rewriter\<close>

text \<open>
  The input of \<open>rewrite_csv\<close> is the sequence of rows that \<open>csv.reader\<close> yields for
  the stream, the header row first; a blank line is the row \<open>[]\<close>.  The output file
  is the sequence of rows handed to the underlying \<open>csv.writer\<close>.  How the \<open>csv\<close>
  module tokenises and quotes a line is below this model.

  A \<open>DictReader\<close> row is a dict in insertion order.  Its keys are the field names and,
  for a row longer than the header, the \<open>restkey\<close> \<open>None\<close>; its values are strings,
  the \<open>restval\<close> \<open>None\<close> for a row shorter than the header, and the list of surplus
  fields under the \<open>restkey\<close>.
\<close>

datatype cell =
    Str string
  | NoneVal
  | Rest "string list"

type_synonym pydict = "(string option \<times> cell) list"

text \<open>\<open>d[k] = v\<close>: an existing key keeps its place, a new one goes last.\<close>

definition setitem :: "pydict \<Rightarrow> string option \<Rightarrow> cell \<Rightarrow> pydict" where
  "setitem d k v = AList.update k v d"

text \<open>\<open>DictReader.__next__\<close> for one non-blank row.\<close>

definition dict_row :: "string list \<Rightarrow> string list \<Rightarrow> pydict" where
  "dict_row fieldnames row =
     (let d = foldl (\<lambda>d (k, v). setitem d (Some k) (Str v)) [] (zip fieldnames row);
          lf = length fieldnames;
          lr = length row
      in if lf < lr then setitem d None (Rest (drop lf row))
         else if lf > lr then foldl (\<lambda>d key. setitem d (Some key) NoneVal) d (drop lr fieldnames)
         else d)"

definition rename :: "string \<Rightarrow> string" where
  "rename name = (case map_of FIELD_MAPPINGS name of Some mapped \<Rightarrow> mapped | None \<Rightarrow> name)"

text \<open>The body of \<open>for name in row\<close>.  \<open>None\<close> is not a key of the rename table;
  \<open>.replace\<close> exists on strings only.\<close>

fun make_row_out :: "pydict \<Rightarrow> pydict \<Rightarrow> error + pydict" where
  "make_row_out [] row_out = Inr row_out"
| "make_row_out ((name, v) # row) row_out =
     (case (case name of None \<Rightarrow> None | Some n \<Rightarrow> map_of FIELD_MAPPINGS n) of
        Some mapped \<Rightarrow> make_row_out row (setitem row_out (Some mapped) v)
      | None \<Rightarrow>
          (case v of
             Str s \<Rightarrow> make_row_out row (setitem row_out name (Str (replace_tabs s)))
           | _ \<Rightarrow> Inl AttributeError))"

text \<open>What \<open>csv.writer\<close> writes for a value: \<open>None\<close> as the empty string, a string as
  it is, anything else through \<open>str\<close> (for a list of strings: its items in quotes,
  without the escaping \<open>repr\<close> adds).\<close>

fun cell_text :: "cell \<Rightarrow> string" where
  "cell_text (Str s) = s"
| "cell_text NoneVal = []"
| "cell_text (Rest xs) =
     ''['' @ concat (map (\<lambda>(i, x). (if i = 0 then [] else '', '') @ [CHR 0x27] @ x @ [CHR 0x27])
                        (zip [0 ..< length xs] xs)) @ '']''"

text \<open>\<open>DictWriter._dict_to_list\<close> with \<open>extrasaction='raise'\<close> and \<open>restval=''\<close>.\<close>

definition dict_to_list :: "string list \<Rightarrow> pydict \<Rightarrow> error + string list" where
  "dict_to_list fieldnames rowdict =
     (if list_all (\<lambda>k. case k of None \<Rightarrow> False | Some n \<Rightarrow> n \<in> set fieldnames)
           (map fst rowdict)
      then Inr (map (\<lambda>key. case map_of rowdict (Some key) of
                             None \<Rightarrow> []
                           | Some v \<Rightarrow> cell_text v) fieldnames)
      else Inl ValueError)"

text \<open>The \<open>for i, row in enumerate(reader)\<close> loop.  \<open>i\<close> is \<open>None\<close> while the
  variable is unbound.  The reader skips blank rows.\<close>

fun rewrite_rows ::
  "string list \<Rightarrow> string list \<Rightarrow> string list list \<Rightarrow> string list list \<Rightarrow> nat option \<Rightarrow>
   string list list \<times> (error + nat option)" where
  "rewrite_rows fieldnames fieldnames_out [] ofh i = (ofh, Inr i)"
| "rewrite_rows fieldnames fieldnames_out (r # rs) ofh i =
     (if r = [] then rewrite_rows fieldnames fieldnames_out rs ofh i
      else case make_row_out (dict_row fieldnames r) [] of
             Inl e \<Rightarrow> (ofh, Inl e)
           | Inr row_out \<Rightarrow>
               (case dict_to_list fieldnames_out row_out of
                  Inl e \<Rightarrow> (ofh, Inl e)
                | Inr texts \<Rightarrow>
                    rewrite_rows fieldnames fieldnames_out rs (ofh @ [texts])
                      (Some (case i of None \<Rightarrow> 0 | Some j \<Rightarrow> j + 1))))"

text \<open>\<open>reader.fieldnames\<close> is \<open>None\<close> for a stream with no row at all, and iterating
  over it is a \<open>TypeError\<close>.  \<open>return i + 1\<close> reads \<open>i\<close>.\<close>

definition rewrite_csv ::
  "string list list \<Rightarrow> string list list \<Rightarrow> string list list \<times> (error + nat)" where
  "rewrite_csv ifh ofh =
     (case ifh of
        [] \<Rightarrow> (ofh, Inl TypeError)
      | fieldnames # rows \<Rightarrow>
          (let fieldnames_out = map rename fieldnames;
               ofh1 = ofh @ [fieldnames_out]
           in case rewrite_rows fieldnames fieldnames_out rows ofh1 None of
                (ofh2, Inl e) \<Rightarrow> (ofh2, Inl e)
              | (ofh2, Inr None) \<Rightarrow> (ofh2, Inl UnboundLocalError)
              | (ofh2, Inr (Some i)) \<Rightarrow> (ofh2, Inr (i + 1))))"

subsection \<open>Copying, and moving the remote files aside\<close>

text \<open>\<open>csv_reader\<close> is the tokeniser of the \<open>csv\<close> module, from the lines of the
  remote \<open>cat\<close> to rows.  The file is opened (and so emptied) before the command is
  sent, and keeps what was written when \<open>rewrite_csv\<close> raises.\<close>

fun copy_files_to_host ::
  "(string list \<Rightarrow> string list list) \<Rightarrow> host \<Rightarrow> FileSpec list \<Rightarrow> world \<Rightarrow>
   (error \<times> world) + (FileSpec list \<times> world)" where
  "copy_files_to_host csv_reader client [] w = Inr ([], w)"
| "copy_files_to_host csv_reader client (spec # file_specs) w =
     (let w1 = w\<lparr>local_files := (local_files w)(local_path spec \<mapsto> [])\<rparr>;
          (stdout, w2) = run_command client (''cat '' @ remote_path spec) w1;
          (ofh, result) = rewrite_csv (csv_reader stdout) [];
          w3 = w2\<lparr>local_files := (local_files w2)(local_path spec \<mapsto> ofh)\<rparr>
      in case result of
           Inl e \<Rightarrow> Inl (e, w3)
         | Inr records \<Rightarrow>
             (case copy_files_to_host csv_reader client file_specs
                     (record_copy (remote_path spec) records w3) of
                Inl e \<Rightarrow> Inl e
              | Inr (retval, w4) \<Rightarrow> Inr (spec # retval, w4)))"

fun copy_files_to_share :: "FileSpec list \<Rightarrow> world \<Rightarrow> (error \<times> world) + world" where
  "copy_files_to_share [] w = Inr w"
| "copy_files_to_share (spec # specs) w =
     (case local_files w (local_path spec) of
        None \<Rightarrow> Inl (FileNotFoundError, w)
      | Some content \<Rightarrow>
          copy_files_to_share specs
            (w\<lparr>local_files := (local_files w)(share_path spec \<mapsto> content)\<rparr>))"

text \<open>A non-zero exit code of \<open>mv\<close> is logged and nothing else.\<close>

fun move_remote_files_aside :: "host \<Rightarrow> FileSpec list \<Rightarrow> world \<Rightarrow> world" where
  "move_remote_files_aside client [] w = w"
| "move_remote_files_aside client (spec # specs) w =
     (let command_line = ''mv '' @ remote_path spec @ '' '' @ remote_path_old spec;
          (stdout, w1) = run_command client command_line w
      in move_remote_files_aside client specs w1)"

text \<open>The stages of \<open>copy_check_files\<close> up to and including the copies.\<close>

definition copy_phase ::
  "(string list \<Rightarrow> string list list) \<Rightarrow> host \<Rightarrow> FileSpec list \<Rightarrow> world \<Rightarrow>
   (error \<times> world) + world" where
  "copy_phase csv_reader client prospective_files w =
     (case available_non_empty_files client prospective_files w of
        Inl e \<Rightarrow> Inl e
      | Inr (files_wanted, w1) \<Rightarrow>
          if length files_wanted > 0 then
            (case copy_files_to_host csv_reader client files_wanted w1 of
               Inl e \<Rightarrow> Inl e
             | Inr (copied_files, w2) \<Rightarrow> copy_files_to_share copied_files w2)
          else Inr w1)"

definition copy_check_files ::
  "ini \<Rightarrow> string \<Rightarrow> (string list \<Rightarrow> string list list) \<Rightarrow> host \<Rightarrow> world \<Rightarrow>
   (error \<times> world) + world" where
  "copy_check_files config_parser filename csv_reader client w =
     (case get_configuration config_parser of
        Inl e \<Rightarrow> Inl (e, w)
      | Inr config \<Rightarrow>
          (let prospective_files = name_prospective_files config filename COMPANIES
           in case copy_phase csv_reader client prospective_files w of
                Inl e \<Rightarrow> Inl e
              | Inr w1 \<Rightarrow> Inr (move_remote_files_aside client prospective_files w1)))"

section \<open>Notions of the specification\<close>

text \<open>The suffix of the \<open>j\<close>-th file of a report, counting from 0: none for the first,
  then the numerals \<open>2\<close>, \<open>3\<close>, \<open>4\<close>, ...\<close>

definition page_suffix :: "nat \<Rightarrow> string" where
  "page_suffix j = (if j = 0 then [] else str_nat (j + 1))"

text \<open>A row sequence cut into consecutive pages of \<open>n\<close> rows, the last one possibly
  shorter.\<close>

function pages :: "nat \<Rightarrow> 'r list \<Rightarrow> 'r list list" where
  "pages n xs = (if n = 0 \<or> xs = [] then [] else take n xs # pages n (drop n xs))"
  by pat_completeness auto
termination
  by (relation "measure (\<lambda>(n, xs). length xs)") auto

declare pages.simps [simp del]

text \<open>The loop variable \<open>i\<close> after \<open>k\<close> more rows.\<close>

definition bump :: "nat option \<Rightarrow> nat \<Rightarrow> nat option" where
  "bump i k = (if k = 0 then i else Some (k - 1 + (case i of None \<Rightarrow> 0 | Some j \<Rightarrow> j + 1)))"

text \<open>The row written from a dict under a header: for each name of the header in turn,
  the text stored under that name, nothing if there is none.\<close>

definition written_row :: "string list \<Rightarrow> pydict \<Rightarrow> string list" where
  "written_row names row_out =
     map (\<lambda>name. case map_of row_out (Some name) of None \<Rightarrow> [] | Some v \<Rightarrow> cell_text v) names"

text \<open>The dicts \<open>row_out\<close> of the data rows in turn, up to the first row on which the
  body of the loop raises.\<close>

fun row_outs :: "string list \<Rightarrow> string list list \<Rightarrow> pydict list" where
  "row_outs fieldnames [] = []"
| "row_outs fieldnames (r # rs) =
     (if r = [] then row_outs fieldnames rs
      else case make_row_out (dict_row fieldnames r) [] of
             Inl e \<Rightarrow> []
           | Inr row_out \<Rightarrow> row_out # row_outs fieldnames rs)"


subsection \<open>Commands and line counts\<close>

text \<open>The command lines the script sends for a file.\<close>

definition ls_command :: "FileSpec \<Rightarrow> string" where
  "ls_command spec = ''ls '' @ remote_path spec"

definition wc_command :: "FileSpec \<Rightarrow> string" where
  "wc_command spec = ''wc -l '' @ remote_path spec"

definition mv_command :: "FileSpec \<Rightarrow> string" where
  "mv_command spec = ''mv '' @ remote_path spec @ '' '' @ remote_path_old spec"



text \<open>A line of \<open>wc -l\<close> starts with the count \<open>n\<close> when its first part is the
  numeral of \<open>n\<close>, whatever follows.\<close>

definition starts_with_count :: "string \<Rightarrow> nat \<Rightarrow> bool" where
  "starts_with_count line n =
     (case split line of
        [] \<Rightarrow> False
      | count # _ \<Rightarrow> count = str_nat n)"

text \<open>Command lines none of which starts with \<open>mv\<close> and a blank.\<close>

definition fetches :: "string list \<Rightarrow> bool" where
  "fetches cs = list_all (\<lambda>c. take 3 c \<noteq> ''mv '') cs"



subsection \<open>Time stamps\<close>

text \<open>The days of a year from month \<open>m\<close> to December.\<close>

definition days_from :: "bool \<Rightarrow> nat \<Rightarrow> nat" where
  "days_from leap m = sum_list (map (days_in_month leap) [m ..< 13])"



section \<open>Example runs\<close>

text \<open>Concrete configurations, hosts and files, used to instantiate the theorems below.
  \<open>plain_csv_reader\<close> is the tokeniser for lines without quote characters: fields are
  cut at commas, a blank line is the empty row.\<close>

definition afl_spec :: FileSpec where
  "afl_spec = \<lparr>remote_path = ''cr/cr-afl.csv'', remote_path_old = ''cr/old/cr-afl.csv'',
                local_path = ''/tmp/AFLCIO/20250602-1415.txt'',
                share_path = ''/share/AFLCIO/20250602-1415.txt''\<rparr>"

definition cope_spec :: FileSpec where
  "cope_spec = \<lparr>remote_path = ''cr/cr-cope.csv'', remote_path_old = ''cr/old/cr-cope.csv'',
                 local_path = ''/tmp/COPE/20250602-1415.txt'',
                 share_path = ''/share/COPE/20250602-1415.txt''\<rparr>"

definition wpr_spec :: FileSpec where
  "wpr_spec = \<lparr>remote_path = ''cr/cr-wpr.csv'', remote_path_old = ''cr/old/cr-wpr.csv'',
                local_path = ''/tmp/WPR/20250602-1415.txt'',
                share_path = ''/share/WPR/20250602-1415.txt''\<rparr>"

definition spaced_spec :: FileSpec where
  "spaced_spec = \<lparr>remote_path = ''my dir/cr-cope.csv'', remote_path_old = ''cr/old/cr-cope.csv'',
                 local_path = ''/tmp/COPE/20250602-1415.txt'',
                 share_path = ''/share/COPE/20250602-1415.txt''\<rparr>"

definition empty_world :: world where
  "empty_world = \<lparr>issued = [], transfers = [], local_files = Map.empty\<rparr>"



definition example_ini :: ini where
  "example_ini section key =
     (if section = ''remote'' then
        map_of [(''host'', ''trfr.example.org''), (''user'', ''poliops''),
                (''keyname'', ''id_rsa''), (''directory'', ''cr''),
                (''done_directory'', ''cr/old'')] key
      else if section = ''local'' then
        map_of [(''temp_directory'', ''/tmp''), (''destination_directory'', ''/share'')] key
      else None)"

definition example_settings :: settings where
  "example_settings =
     \<lparr>host_name = ''trfr.example.org'', user = ''poliops'', keyname = ''id_rsa'',
      directory = ''cr'', done_directory = ''cr/old'', temp_directory = ''/tmp'',
      destination_directory = ''/share''\<rparr>"

fun comma_fields :: "string \<Rightarrow> string \<Rightarrow> string list" where
  "comma_fields field [] = [field]"
| "comma_fields field (c # cs) =
     (if c = CHR '','' then field # comma_fields [] cs else comma_fields (field @ [c]) cs)"

definition plain_csv_reader :: "string list \<Rightarrow> string list list" where
  "plain_csv_reader lines = map (\<lambda>line. if line = [] then [] else comma_fields [] line) lines"


definition fiscal_ini :: ini where
  "fiscal_ini section key =
     (if section = ''local'' then map_of [(''directory'', ''/home/runner/poliops2'')] key
      else if section = ''remote'' then
        map_of [(''host'', ''trfr.example.org''), (''user'', ''poliops''),
                (''keyname'', ''id_rsa'')] key
      else None)"

definition blank_path_host :: host where
  "blank_path_host command_line =
     (if command_line = ''ls my dir/cr-cope.csv'' then [''my dir/cr-cope.csv'']
      else if command_line = ''wc -l my dir/cr-cope.csv'' then [''5 my dir/cr-cope.csv'']
      else [])"

definition no_newline_host :: host where
  "no_newline_host command_line =
     (if command_line = ''ls cr/cr-afl.csv'' then [''cr/cr-afl.csv'']
      else if command_line = ''wc -l cr/cr-afl.csv'' then [''0 cr/cr-afl.csv'']
      else if command_line = ''cat cr/cr-afl.csv'' then [''FCC,Amount'']
      else [])"


section \<open>Decimal numerals\<close>




lemma str_nat_nonempty: "str_nat n \<noteq> []"
  by (subst str_nat.simps) simp

lemma lt10: "(d::nat) < 10 \<Longrightarrow> d \<in> {0, 1, 2, 3, 4, 5, 6, 7, 8, 9}"
  by auto

lemma is_digit_digit_char: "d < 10 \<Longrightarrow> is_digit (digit_char d)"
  by (drule lt10) (auto simp: is_digit_def digit_char_def)

lemma digit_val_digit_char: "d < 10 \<Longrightarrow> digit_val (digit_char d) = d"
  by (drule lt10) (auto simp: digit_val_def digit_char_def)

lemma str_nat_digits: "list_all is_digit (str_nat n)"
proof (induction n rule: str_nat.induct)
  case (1 n)
  show ?case
    by (subst str_nat.simps) (use 1 in \<open>simp add: is_digit_digit_char\<close>)
qed

lemma str_nat_value: "foldl (\<lambda>a c. 10 * a + digit_val c) 0 (str_nat n) = n"
proof (induction n rule: str_nat.induct)
  case (1 n)
  show ?case
    by (subst str_nat.simps) (use 1 in \<open>simp add: digit_val_digit_char\<close>)
qed

lemma py_int_str_nat: "py_int (str_nat n) = Inr n"
  by (simp add: py_int_def str_nat_nonempty str_nat_digits str_nat_value)

lemma str_nat_inj:
  assumes "str_nat m = str_nat n"
  shows "m = n"
proof -
  from assms have "py_int (str_nat m) = py_int (str_nat n)"
    by (rule arg_cong)
  then show ?thesis
    by (simp only: py_int_str_nat sum.inject)
qed

lemma str_nat_2: "str_nat 2 = ''2''"
  by (simp add: str_nat.simps digit_char_def)

section \<open>The paginated report writer\<close>

lemma next_suffix_page_suffix: "next_suffix (page_suffix i) = Inr (page_suffix (Suc i))"
  using str_nat_2 by (simp add: next_suffix_def page_suffix_def str_nat_nonempty py_int_str_nat numeral_2_eq_2)

lemma page_suffix_inj: "page_suffix i = page_suffix j \<Longrightarrow> i = j"
  by (auto simp: page_suffix_def str_nat_nonempty str_nat_nonempty [symmetric] dest: str_nat_inj split: if_splits)

lemma write_pages_pages:
  assumes w: "\<And>rows s fs. w rows s fs = (P s, fs(P s \<mapsto> (h, rows)))"
  shows "write_pages w n (take n xs) (drop n xs) (page_suffix i) fs rv =
           Inr (fs(map (\<lambda>j. P (page_suffix j)) [i ..< i + length (pages n xs)]
                     [\<mapsto>] map (Pair h) (pages n xs)),
                rv @ map (\<lambda>j. P (page_suffix j)) [i ..< i + length (pages n xs)])"
proof (induction xs arbitrary: i fs rv rule: measure_induct_rule [where f = length])
  case (less xs)
  show ?case
  proof (cases "n = 0 \<or> xs = []")
    case True
    have "pages n xs = []"
      by (subst pages.simps) (use True in simp)
    with True show ?thesis
      by (auto simp: write_pages.simps)
  next
    case False
    then have n: "0 < n" and xs: "xs \<noteq> []" by auto
    have pg: "pages n xs = take n xs # pages n (drop n xs)"
      by (subst pages.simps) (use False in simp)
    have shorter: "length (drop n xs) < length xs"
      using n xs by (cases xs) auto
    show ?thesis
    proof (cases "drop n xs = []")
      case True
      have "pages n (drop n xs) = []"
        by (subst pages.simps) (use True in simp)
      with True n xs show ?thesis
        by (subst write_pages.simps) (simp add: pg w fetchmany_def)
    next
      case nonempty: False
      have ne: "take n (drop n xs) \<noteq> []"
        using n nonempty by simp
      let ?m = "length (pages n (drop n xs))"
      have step: "write_pages w n (take n xs) (drop n xs) (page_suffix i) fs rv =
          write_pages w n (take n (drop n xs)) (drop n (drop n xs)) (page_suffix (Suc i))
            (fs(P (page_suffix i) \<mapsto> (h, take n xs))) (rv @ [P (page_suffix i)])"
        using n xs ne
        by (subst write_pages.simps)
           (simp add: w fetchmany_def next_suffix_page_suffix del: drop_drop)
      have idx: "[i ..< i + length (pages n xs)] = i # [Suc i ..< Suc i + ?m]"
        by (simp add: pg upt_conv_Cons del: upt_Suc)
      show ?thesis
        unfolding step less.IH [OF shorter] idx
        by (simp add: pg)
    qed
  qed
qed


lemma pages_Nil: "pages n [] = []"
  by (simp add: pages.simps)

lemma pages_Cons: "0 < n \<Longrightarrow> xs \<noteq> [] \<Longrightarrow> pages n xs = take n xs # pages n (drop n xs)"
  by (subst pages.simps) simp

lemma concat_pages: "0 < n \<Longrightarrow> concat (pages n xs) = xs"
proof (induction xs rule: measure_induct_rule [where f = length])
  case (less xs)
  show ?case
  proof (cases "xs = []")
    case True
    then show ?thesis by (simp add: pages_Nil)
  next
    case False
    with less.prems have "length (drop n xs) < length xs"
      by (cases xs) auto
    then have "concat (pages n (drop n xs)) = drop n xs"
      using less by blast
    with False less.prems show ?thesis
      by (simp add: pages_Cons)
  qed
qed

lemma length_pages:
  "0 < n \<Longrightarrow> r < n \<Longrightarrow> length xs = k * n + r \<Longrightarrow>
   length (pages n xs) = k + (if r > 0 then 1 else 0)"
proof (induction k arbitrary: xs)
  case 0
  show ?case
  proof (cases "xs = []")
    case True
    with 0 show ?thesis by (simp add: pages_Nil)
  next
    case False
    with 0 have "drop n xs = []" and "0 < r" by auto
    with 0 False show ?thesis by (simp add: pages_Cons pages_Nil)
  qed
next
  case (Suc k)
  then have ne: "xs \<noteq> []" by auto
  from Suc.prems have "length (drop n xs) = k * n + r" by simp
  then have "length (pages n (drop n xs)) = k + (if r > 0 then 1 else 0)"
    using Suc.IH Suc.prems by blast
  with ne Suc.prems show ?case by (simp add: pages_Cons)
qed

lemma nth_pages:
  "0 < n \<Longrightarrow> j < length (pages n xs) \<Longrightarrow> pages n xs ! j = take n (drop (j * n) xs)"
proof (induction j arbitrary: xs)
  case 0
  then have "xs \<noteq> []" by (auto simp: pages_Nil)
  with 0 show ?case by (simp add: pages_Cons)
next
  case (Suc j)
  then have ne: "xs \<noteq> []" by (auto simp: pages_Nil)
  with Suc.prems have "j < length (pages n (drop n xs))" by (simp add: pages_Cons)
  then have "pages n (drop n xs) ! j = take n (drop (j * n) (drop n xs))"
    using Suc.IH Suc.prems by blast
  with ne Suc.prems show ?case by (simp add: pages_Cons add.commute)
qed

lemma map_upds_nth:
  "distinct ps \<Longrightarrow> length ps = length vs \<Longrightarrow> j < length ps \<Longrightarrow>
   (f(ps [\<mapsto>] vs)) (ps ! j) = Some (vs ! j)"
proof (induction ps arbitrary: vs j f)
  case Nil
  then show ?case by simp
next
  case (Cons p ps)
  then obtain v vs' where vs: "vs = v # vs'" by (cases vs) auto
  show ?case
  proof (cases j)
    case 0
    with Cons.prems vs show ?thesis by (simp add: map_upds_apply_nontin)
  next
    case (Suc j')
    with Cons.prems vs have "(f(p \<mapsto> v, ps [\<mapsto>] vs')) (ps ! j') = Some (vs' ! j')"
      by (intro Cons.IH) auto
    with Suc vs show ?thesis by simp
  qed
qed


text \<open>A result set of three rows on the real page size: one file, without suffix.\<close>

lemma write_report_three_rows:
  "write_report [''Date'', ''Amt''] ''/home/runner/poliops2'' ''cope'' ''_narrow''
       [[''d1'', ''1''], [''d2'', ''2''], [''d3'', ''3'']] Map.empty []
     = Inr ([''/home/runner/poliops2/cope_narrow.tsv'' \<mapsto>
               ([''Date'', ''Amt''], [[''d1'', ''1''], [''d2'', ''2''], [''d3'', ''3'']])],
            [''/home/runner/poliops2/cope_narrow.tsv''])"
  by (simp add: write_report_def fetchmany_def ROWS_PER_FILE_def write_pages.simps
        make_writer_def path_join_def Let_def)

text \<open>
  Claim C1.  For a result set of \<open>k * ROWS_PER_FILE + r\<close> rows with
  \<open>r < ROWS_PER_FILE\<close>, the writer returns normally and appends exactly
  \<open>k + (if r > 0 then 1 else 0)\<close> path names to \<open>retval\<close>.  They are pairwise
  different; the \<open>j\<close>-th carries the suffix \<open>page_suffix j\<close> (none, then \<open>2\<close>, \<open>3\<close>,
  ...); the file at the \<open>j\<close>-th path holds the header and rows
  \<open>j * ROWS_PER_FILE\<close> up to \<open>(j + 1) * ROWS_PER_FILE\<close> of the cursor; the data rows of
  the files, concatenated in that order, are the cursor's rows; and no other path of the
  file system is touched.
\<close>

theorem write_report_pagination:
  assumes len: "length cur = k * ROWS_PER_FILE + r" and r: "r < ROWS_PER_FILE"
  shows "\<exists>fs' names.
           write_report header local_directory company_name type_suffix cur fs rv
             = Inr (fs', rv @ names)
         \<and> length names = k + (if r > 0 then 1 else 0)
         \<and> distinct names
         \<and> names = map (\<lambda>j. path_join local_directory company_name @ type_suffix
                              @ page_suffix j @ ''.tsv'') [0 ..< length names]
         \<and> (\<forall>j < length names. fs' (names ! j) =
               Some (header, take ROWS_PER_FILE (drop (j * ROWS_PER_FILE) cur)))
         \<and> concat (map (\<lambda>p. snd (the (fs' p))) names) = cur
         \<and> (\<forall>p. p \<notin> set names \<longrightarrow> fs' p = fs p)"
proof -
  let ?n = ROWS_PER_FILE
  let ?P = "\<lambda>s. path_join local_directory company_name @ type_suffix @ s @ ''.tsv''"
  let ?pg = "pages ?n cur"
  let ?names = "map (\<lambda>j. ?P (page_suffix j)) [0 ..< length ?pg]"
  let ?fs' = "fs(?names [\<mapsto>] map (Pair header) ?pg)"
  have n: "0 < ?n" by (simp add: ROWS_PER_FILE_def)
  have w: "\<And>rows s fs. make_writer header local_directory company_name type_suffix rows s fs
             = (?P s, fs(?P s \<mapsto> (header, rows)))"
    by (simp add: make_writer_def Let_def)
  have run: "write_report header local_directory company_name type_suffix cur fs rv
               = Inr (?fs', rv @ ?names)"
    using write_pages_pages [where n = ?n and xs = cur and i = 0 and fs = fs and rv = rv, OF w]
    by (simp add: write_report_def fetchmany_def page_suffix_def)
  have lenp: "length ?pg = k + (if r > 0 then 1 else 0)"
    using length_pages [OF n r len] .
  have inj: "inj_on (\<lambda>j. ?P (page_suffix j)) {0 ..< length ?pg}"
    by (rule inj_onI) (auto dest: page_suffix_inj)
  have dist: "distinct ?names"
    by (simp add: distinct_map inj)
  have at: "\<And>j. j < length ?names \<Longrightarrow> ?fs' (?names ! j) = Some (header, ?pg ! j)"
    using map_upds_nth [OF dist, of "map (Pair header) ?pg" _ fs] by simp
  have body: "map (\<lambda>p. snd (the (?fs' p))) ?names = ?pg"
  proof (rule nth_equalityI)
    show "length (map (\<lambda>p. snd (the (?fs' p))) ?names) = length ?pg" by simp
  next
    fix j assume "j < length (map (\<lambda>p. snd (the (?fs' p))) ?names)"
    then have j: "j < length ?names" by simp
    then have "map (\<lambda>p. snd (the (?fs' p))) ?names ! j = snd (the (?fs' (?names ! j)))"
      by (rule nth_map)
    also have "\<dots> = ?pg ! j" using at [OF j] by simp
    finally show "map (\<lambda>p. snd (the (?fs' p))) ?names ! j = ?pg ! j" .
  qed
  have c1: "length ?names = k + (if r > 0 then 1 else 0)" using lenp by simp
  have c3: "?names = map (\<lambda>j. ?P (page_suffix j)) [0 ..< length ?names]"
    by simp
  have c4: "\<forall>j < length ?names. ?fs' (?names ! j) =
               Some (header, take ?n (drop (j * ?n) cur))"
  proof (intro allI impI)
    fix j assume j: "j < length ?names"
    then have "j < length ?pg" by simp
    then have "?pg ! j = take ?n (drop (j * ?n) cur)" using nth_pages [OF n] by blast
    with at [OF j] show "?fs' (?names ! j) = Some (header, take ?n (drop (j * ?n) cur))"
      by simp
  qed
  have c5: "concat (map (\<lambda>p. snd (the (?fs' p))) ?names) = cur"
    unfolding body using concat_pages [OF n] .
  have c6: "\<forall>p. p \<notin> set ?names \<longrightarrow> ?fs' p = fs p"
    by (simp add: map_upds_apply_nontin)
  from run c1 dist c3 c4 c5 c6 show ?thesis by blast
qed

theorem write_report_pagination_witness:
  "length (replicate 100001 [''x'']) = 2 * ROWS_PER_FILE + 3 \<and> 3 < ROWS_PER_FILE \<and>
   (\<exists>fs' names.
       write_report [''h''] ''/home/runner/poliops2'' ''aflcio'' ''_narrow''
           (replicate 100001 [''x'']) Map.empty []
         = Inr (fs', [] @ names)
     \<and> length names = 2 + (if (3::nat) > 0 then 1 else 0)
     \<and> distinct names
     \<and> names = map (\<lambda>j. path_join ''/home/runner/poliops2'' ''aflcio'' @ ''_narrow''
                          @ page_suffix j @ ''.tsv'') [0 ..< length names]
     \<and> (\<forall>j < length names. fs' (names ! j) =
           Some ([''h''], take ROWS_PER_FILE (drop (j * ROWS_PER_FILE) (replicate 100001 [''x'']))))
     \<and> concat (map (\<lambda>p. snd (the (fs' p))) names) = replicate 100001 [''x'']
     \<and> (\<forall>p. p \<notin> set names \<longrightarrow> fs' p = Map.empty p))"
proof -
  have len: "length (replicate 100001 [''x'']) = 2 * ROWS_PER_FILE + 3"
    by (simp add: ROWS_PER_FILE_def)
  have r: "3 < ROWS_PER_FILE"
    by (simp add: ROWS_PER_FILE_def)
  from len r write_report_pagination [OF len r, of "[''h'']" "''/home/runner/poliops2''"
      "''aflcio''" "''_narrow''" Map.empty "[]"]
  show ?thesis by blast
qed

section \<open>The CSV-to-TSV rewriter\<close>

subsection \<open>Rows as wide as a header of distinct names outside the rename table\<close>

lemma update_fresh: "k \<notin> fst ` set al \<Longrightarrow> AList.update k v al = al @ [(k, v)]"
  by (induction al) auto

lemma dict_zip:
  "distinct ns \<Longrightarrow> Some ` set ns \<inter> fst ` set d0 = {} \<Longrightarrow>
   foldl (\<lambda>d (k, v). setitem d (Some k) (Str v)) d0 (zip ns vs)
     = d0 @ zip (map Some ns) (map Str vs)"
proof (induction ns arbitrary: vs d0)
  case Nil
  then show ?case by simp
next
  case (Cons n ns)
  show ?case
  proof (cases vs)
    case Nil
    then show ?thesis by simp
  next
    case (Cons v vs')
    have fresh: "Some n \<notin> fst ` set d0" using Cons.prems by auto
    have disj: "Some ` set ns \<inter> fst ` set (d0 @ [(Some n, Str v)]) = {}"
      using Cons.prems by auto
    have "distinct ns" using Cons.prems by simp
    from Cons.IH [OF this disj] fresh show ?thesis
      by (simp add: Cons setitem_def update_fresh)
  qed
qed

lemma dict_row_rect:
  "distinct ns \<Longrightarrow> length r = length ns \<Longrightarrow> dict_row ns r = zip (map Some ns) (map Str r)"
  using dict_zip [of ns "[]" r] by (simp add: dict_row_def)

lemma make_row_out_plain:
  "\<forall>n\<in>set ns. map_of FIELD_MAPPINGS n = None \<Longrightarrow> distinct ns \<Longrightarrow>
   Some ` set ns \<inter> fst ` set acc = {} \<Longrightarrow> length vs = length ns \<Longrightarrow>
   make_row_out (zip (map Some ns) (map Str vs)) acc
     = Inr (acc @ zip (map Some ns) (map (\<lambda>v. Str (replace_tabs v)) vs))"
proof (induction ns arbitrary: vs acc)
  case Nil
  then show ?case by simp
next
  case (Cons n ns)
  then obtain v vs' where vs: "vs = v # vs'" by (cases vs) auto
  have fresh: "Some n \<notin> fst ` set acc" using Cons.prems by auto
  have disj: "Some ` set ns \<inter> fst ` set (acc @ [(Some n, Str (replace_tabs v))]) = {}"
    using Cons.prems by auto
  have "make_row_out (zip (map Some ns) (map Str vs')) (acc @ [(Some n, Str (replace_tabs v))])
          = Inr ((acc @ [(Some n, Str (replace_tabs v))])
                 @ zip (map Some ns) (map (\<lambda>v. Str (replace_tabs v)) vs'))"
    using Cons.prems vs by (intro Cons.IH disj) auto
  with Cons.prems fresh show ?case
    by (simp add: vs setitem_def update_fresh)
qed

lemma dict_to_list_zip:
  assumes "distinct ns" and "length vs = length ns"
  shows "dict_to_list ns (zip (map Some ns) (map Str vs)) = Inr vs"
proof -
  have keys: "map fst (zip (map Some ns) (map Str vs)) = map Some ns"
    using assms by simp
  have "map (\<lambda>key. case map_of (zip (map Some ns) (map Str vs)) (Some key) of
                      None \<Rightarrow> [] | Some v \<Rightarrow> cell_text v) ns = vs"
  proof (rule nth_equalityI)
    show "length (map (\<lambda>key. case map_of (zip (map Some ns) (map Str vs)) (Some key) of
                      None \<Rightarrow> [] | Some v \<Rightarrow> cell_text v) ns) = length vs"
      using assms by simp
  next
    fix i
    assume "i < length (map (\<lambda>key. case map_of (zip (map Some ns) (map Str vs)) (Some key) of
                      None \<Rightarrow> [] | Some v \<Rightarrow> cell_text v) ns)"
    then have i: "i < length ns" by simp
    have "map_of (zip (map Some ns) (map Str vs)) (map Some ns ! i) = Some (map Str vs ! i)"
      using assms i by (intro map_of_zip_nth) (simp_all add: distinct_map)
    with i assms
    show "map (\<lambda>key. case map_of (zip (map Some ns) (map Str vs)) (Some key) of
                      None \<Rightarrow> [] | Some v \<Rightarrow> cell_text v) ns ! i = vs ! i"
      by simp
  qed
  then show ?thesis
    unfolding dict_to_list_def keys by (simp add: list_all_iff)
qed


lemma rewrite_rows_plain:
  assumes "\<forall>n\<in>set ns. map_of FIELD_MAPPINGS n = None" and "distinct ns"
  shows "\<forall>r\<in>set rows. r \<noteq> [] \<longrightarrow> length r = length ns \<Longrightarrow>
         rewrite_rows ns ns rows ofh i
           = (ofh @ map (map replace_tabs) (filter (\<lambda>r. r \<noteq> []) rows),
              Inr (bump i (length (filter (\<lambda>r. r \<noteq> []) rows))))"
proof (induction rows arbitrary: ofh i)
  case Nil
  then show ?case by (simp add: bump_def)
next
  case (Cons r rows)
  have IH: "\<And>ofh i. rewrite_rows ns ns rows ofh i
           = (ofh @ map (map replace_tabs) (filter (\<lambda>r. r \<noteq> []) rows),
              Inr (bump i (length (filter (\<lambda>r. r \<noteq> []) rows))))"
    using Cons by simp
  show ?case
  proof (cases "r = []")
    case True
    then show ?thesis by (simp add: IH)
  next
    case False
    then have len: "length r = length ns" using Cons.prems by simp
    have "make_row_out (dict_row ns r) [] = Inr (zip (map Some ns) (map Str (map replace_tabs r)))"
      using make_row_out_plain [OF assms, of "[]" r] len
      by (simp add: dict_row_rect [OF assms(2)] comp_def)
    moreover have "dict_to_list ns (zip (map Some ns) (map Str (map replace_tabs r)))
                     = Inr (map replace_tabs r)"
      using len by (intro dict_to_list_zip assms) simp
    ultimately show ?thesis
      using False by (simp add: IH bump_def split: option.splits)
  qed
qed

lemma rename_unmapped: "map_of FIELD_MAPPINGS n = None \<Longrightarrow> rename n = n"
  by (simp add: rename_def)

lemma replace_tabs_id: "CHR 0x09 \<notin> set v \<Longrightarrow> replace_tabs v = v"
  by (induction v) (auto simp: replace_tabs_def)


subsection \<open>The header and the keys of a row\<close>

lemma rewrite_rows_extends: "\<exists>extra. fst (rewrite_rows fn fo rs ofh i) = ofh @ extra"
proof (induction rs arbitrary: ofh i)
  case Nil
  then show ?case by simp
next
  case (Cons r rs)
  show ?case
  proof (cases "r = []")
    case True
    then show ?thesis using Cons by simp
  next
    case False
    show ?thesis
    proof (cases "make_row_out (dict_row fn r) []")
      case (Inl e)
      with False show ?thesis by simp
    next
      case (Inr row_out)
      show ?thesis
      proof (cases "dict_to_list fo row_out")
        case (Inl e)
        with False Inr show ?thesis by simp
      next
        case inner: (Inr texts)
        obtain extra where
          "fst (rewrite_rows fn fo rs (ofh @ [texts])
                  (Some (case i of None \<Rightarrow> 0 | Some j \<Rightarrow> j + 1))) = (ofh @ [texts]) @ extra"
          using Cons by blast
        with False Inr inner show ?thesis by simp
      qed
    qed
  qed
qed

lemma rewrite_csv_header:
  "\<exists>extra. fst (rewrite_csv (fieldnames # rows) ofh) = ofh @ [map rename fieldnames] @ extra"
proof -
  obtain extra where
    e: "fst (rewrite_rows fieldnames (map rename fieldnames) rows (ofh @ [map rename fieldnames]) None)
          = (ofh @ [map rename fieldnames]) @ extra"
    using rewrite_rows_extends by blast
  then show ?thesis
    by (cases "rewrite_rows fieldnames (map rename fieldnames) rows (ofh @ [map rename fieldnames]) None")
       (auto simp: rewrite_csv_def Let_def split: sum.splits option.splits)
qed

lemma mapped_keys:
  "map_of FIELD_MAPPINGS n = Some m \<Longrightarrow>
   n \<in> {''FCC'', ''Project Code'', ''State Code'', ''Staffer ID'', ''CommitID'', ''RequestID'',
        ''PP Code''}"
  by (simp add: FIELD_MAPPINGS_def split: if_splits)

lemma mapped_values:
  "map_of FIELD_MAPPINGS n = Some m \<Longrightarrow>
   m \<in> {''LM2'', ''PROJECTS'', ''STATE'', ''EMPLOYEES'', ''COMMITID'', ''REQUESTID'', ''PROGRAM''}"
  by (auto simp: FIELD_MAPPINGS_def split: if_splits)

lemma value_not_key: "map_of FIELD_MAPPINGS n = Some m \<Longrightarrow> map_of FIELD_MAPPINGS m = None"
  by (drule mapped_values) (auto simp: FIELD_MAPPINGS_def)

lemma rename_unmapped_result: "map_of FIELD_MAPPINGS (rename x) = None"
  by (cases "map_of FIELD_MAPPINGS x") (simp_all add: rename_def value_not_key)

lemma rename_not_key: "map_of FIELD_MAPPINGS n = Some m \<Longrightarrow> rename x \<noteq> n"
  using rename_unmapped_result [of x] by auto

lemma make_row_out_keys:
  "make_row_out d acc = Inr row_out \<Longrightarrow>
   fst ` set row_out = fst ` set acc \<union> map_option rename ` fst ` set d"
proof (induction d acc rule: make_row_out.induct)
  case (1 row_out)
  then show ?case by simp
next
  case (2 name v row acc)
  show ?case
  proof (cases "case name of None \<Rightarrow> None | Some n \<Rightarrow> map_of FIELD_MAPPINGS n")
    case None
    with "2.prems" obtain s where v: "v = Str s" by (cases v) auto
    have rn: "map_option rename name = name"
      using None by (cases name) (simp_all add: rename_def)
    from "2.prems" None v
    have "make_row_out row (setitem acc name (Str (replace_tabs s))) = Inr row_out" by simp
    from "2.IH"(1) [OF None v this] show ?thesis
      by (auto simp: setitem_def dom_update rn)
  next
    case (Some mapped)
    then obtain n where n: "name = Some n" and m: "map_of FIELD_MAPPINGS n = Some mapped"
      by (cases name) auto
    have rn: "map_option rename name = Some mapped"
      using n m by (simp add: rename_def)
    from "2.prems" Some
    have "make_row_out row (setitem acc (Some mapped) v) = Inr row_out" by simp
    from "2.IH"(2) [OF Some this] show ?thesis
      by (auto simp: setitem_def dom_update rn)
  qed
qed


subsection \<open>The rows written\<close>

lemma update_entries:
  "(k', v') \<in> set (AList.update k v al) \<Longrightarrow> (k', v') = (k, v) \<or> (k', v') \<in> set al"
  by (induction al) (auto split: if_splits)

lemma zip_dict_entries:
  "(k, v) \<in> set (foldl (\<lambda>d (k, v). setitem d (Some k) (Str v)) d0 (zip ns vs)) \<Longrightarrow>
   (k, v) \<in> set d0 \<or> (\<exists>n\<in>set ns. k = Some n)"
proof (induction ns arbitrary: vs d0)
  case Nil
  then show ?case by simp
next
  case (Cons n ns)
  show ?case
  proof (cases vs)
    case Nil
    with Cons.prems show ?thesis by simp
  next
    case (Cons x xs)
    with Cons.prems Cons.IH [of "setitem d0 (Some n) (Str x)" xs]
    have "(k, v) \<in> set (setitem d0 (Some n) (Str x)) \<or> (\<exists>n\<in>set ns. k = Some n)" by simp
    then show ?thesis
      by (auto simp: setitem_def dest: update_entries)
  qed
qed

lemma restval_entries:
  "(k, v) \<in> set (foldl (\<lambda>d key. setitem d (Some key) NoneVal) d0 ns) \<Longrightarrow>
   (k, v) \<in> set d0 \<or> (\<exists>n\<in>set ns. k = Some n)"
proof (induction ns arbitrary: d0)
  case Nil
  then show ?case by simp
next
  case (Cons n ns)
  from Cons.prems Cons.IH [of "setitem d0 (Some n) NoneVal"]
  have "(k, v) \<in> set (setitem d0 (Some n) NoneVal) \<or> (\<exists>n\<in>set ns. k = Some n)" by simp
  then show ?case
    by (auto simp: setitem_def dest: update_entries)
qed

lemma dict_row_entries:
  assumes "(k, v) \<in> set (dict_row fn r)"
  shows "(\<exists>n\<in>set fn. k = Some n) \<or> (k = None \<and> (\<exists>xs. v = Rest xs))"
proof -
  let ?d = "foldl (\<lambda>d (k, v). setitem d (Some k) (Str v)) [] (zip fn r)"
  have d: "\<And>k v. (k, v) \<in> set ?d \<Longrightarrow> \<exists>n\<in>set fn. k = Some n"
    using zip_dict_entries [of _ _ "[]" fn r] by simp
  show ?thesis
  proof (cases "length fn < length r")
    case True
    with assms have "(k, v) \<in> set (setitem ?d None (Rest (drop (length fn) r)))"
      by (simp add: dict_row_def Let_def)
    then have "(k, v) = (None, Rest (drop (length fn) r)) \<or> (k, v) \<in> set ?d"
      unfolding setitem_def by (rule update_entries)
    then show ?thesis
    proof
      assume "(k, v) = (None, Rest (drop (length fn) r))"
      then show ?thesis by simp
    next
      assume "(k, v) \<in> set ?d"
      from d [OF this] show ?thesis by simp
    qed
  next
    case False
    show ?thesis
    proof (cases "length fn > length r")
      case True
      with False assms
      have "(k, v) \<in> set (foldl (\<lambda>d key. setitem d (Some key) NoneVal) ?d (drop (length r) fn))"
        by (simp add: dict_row_def Let_def)
      from restval_entries [OF this] show ?thesis
        by (auto dest: d in_set_dropD)
    next
      case False
      with \<open>\<not> length fn < length r\<close> assms have "(k, v) \<in> set ?d"
        by (simp add: dict_row_def Let_def)
      then show ?thesis by (auto dest: d)
    qed
  qed
qed

lemma make_row_out_no_rest:
  "make_row_out d acc = Inr row_out \<Longrightarrow> (None, v) \<in> set d \<Longrightarrow> \<exists>s. v = Str s"
proof (induction d acc rule: make_row_out.induct)
  case (1 row_out)
  then show ?case by simp
next
  case (2 name x row acc)
  show ?case
  proof (cases "case name of None \<Rightarrow> None | Some n \<Rightarrow> map_of FIELD_MAPPINGS n")
    case None
    with "2.prems"(1) obtain s where x: "x = Str s" by (cases x) auto
    from "2.prems"(1) None x
    have rec: "make_row_out row (setitem acc name (Str (replace_tabs s))) = Inr row_out" by simp
    from "2.prems"(2) have "(None, v) = (name, x) \<or> (None, v) \<in> set row" by simp
    then show ?thesis
    proof
      assume "(None, v) = (name, x)"
      with x show ?thesis by simp
    next
      assume "(None, v) \<in> set row"
      with "2.IH"(1) [OF None x rec] show ?thesis by simp
    qed
  next
    case (Some mapped)
    then have nn: "name \<noteq> None" by (cases name) auto
    from "2.prems"(1) Some
    have rec: "make_row_out row (setitem acc (Some mapped) x) = Inr row_out" by simp
    from "2.prems"(2) nn have "(None, v) \<in> set row" by auto
    with "2.IH"(2) [OF Some rec] show ?thesis by simp
  qed
qed

lemma row_out_keys:
  assumes ok: "make_row_out (dict_row fn r) [] = Inr row_out"
  shows "fst ` set row_out \<subseteq> Some ` set (map rename fn)"
proof
  fix k assume "k \<in> fst ` set row_out"
  then have "k \<in> map_option rename ` fst ` set (dict_row fn r)"
    using make_row_out_keys [OF ok] by simp
  then obtain k0 v where kv: "(k0, v) \<in> set (dict_row fn r)" and k: "k = map_option rename k0"
    by force
  from dict_row_entries [OF kv] show "k \<in> Some ` set (map rename fn)"
  proof
    assume "\<exists>n\<in>set fn. k0 = Some n"
    with k show ?thesis by auto
  next
    assume "k0 = None \<and> (\<exists>xs. v = Rest xs)"
    with kv make_row_out_no_rest [OF ok, of v] show ?thesis by auto
  qed
qed

lemma dict_to_list_written:
  assumes "fst ` set row_out \<subseteq> Some ` set names"
  shows "dict_to_list names row_out = Inr (written_row names row_out)"
proof -
  have "list_all (\<lambda>k. case k of None \<Rightarrow> False | Some n \<Rightarrow> n \<in> set names) (map fst row_out)"
    using assms by (auto simp: list_all_iff split: option.splits)
  then show ?thesis by (simp add: dict_to_list_def written_row_def)
qed

lemma rewrite_rows_written:
  "fst (rewrite_rows fn (map rename fn) rows ofh i)
     = ofh @ map (written_row (map rename fn)) (row_outs fn rows)"
proof (induction rows arbitrary: ofh i)
  case Nil
  then show ?case by simp
next
  case (Cons r rows)
  show ?case
  proof (cases "r = []")
    case True
    with Cons show ?thesis by simp
  next
    case False
    show ?thesis
    proof (cases "make_row_out (dict_row fn r) []")
      case (Inl e)
      with False show ?thesis by simp
    next
      case (Inr row_out)
      have "dict_to_list (map rename fn) row_out = Inr (written_row (map rename fn) row_out)"
        using row_out_keys [OF Inr] by (rule dict_to_list_written)
      with False Inr Cons show ?thesis by simp
    qed
  qed
qed

lemma rewrite_csv_written:
  "fst (rewrite_csv (fieldnames # rows) ofh)
     = ofh @ [map rename fieldnames]
         @ map (written_row (map rename fieldnames)) (row_outs fieldnames rows)"
proof -
  let ?res = "rewrite_rows fieldnames (map rename fieldnames) rows (ofh @ [map rename fieldnames]) None"
  have "fst (rewrite_csv (fieldnames # rows) ofh) = fst ?res"
    by (cases ?res) (auto simp: rewrite_csv_def Let_def split: sum.splits option.splits)
  then show ?thesis by (simp add: rewrite_rows_written)
qed

lemma row_outs_source:
  "row_out \<in> set (row_outs fn rows) \<Longrightarrow>
   \<exists>r\<in>set rows. r \<noteq> [] \<and> make_row_out (dict_row fn r) [] = Inr row_out"
  by (induction rows) (auto split: if_splits sum.splits)

lemma make_row_out_tab_free:
  "distinct (map rename ns) \<Longrightarrow> Some ` set (map rename ns) \<inter> fst ` set acc = {} \<Longrightarrow>
   length vs = length ns \<Longrightarrow> \<forall>v\<in>set vs. CHR 0x09 \<notin> set v \<Longrightarrow>
   make_row_out (zip (map Some ns) (map Str vs)) acc
     = Inr (acc @ zip (map Some (map rename ns)) (map Str vs))"
proof (induction ns arbitrary: vs acc)
  case Nil
  then show ?case by simp
next
  case (Cons n ns)
  then obtain v vs' where vs: "vs = v # vs'" by (cases vs) auto
  have fresh: "Some (rename n) \<notin> fst ` set acc" using Cons.prems by auto
  have v: "replace_tabs v = v" using Cons.prems vs by (simp add: replace_tabs_id)
  have step: "make_row_out (zip (map Some (n # ns)) (map Str vs)) acc
                = make_row_out (zip (map Some ns) (map Str vs')) (acc @ [(Some (rename n), Str v)])"
    using fresh
    by (cases "map_of FIELD_MAPPINGS n") (simp_all add: vs v setitem_def update_fresh rename_def)
  have disj: "Some ` set (map rename ns) \<inter> fst ` set (acc @ [(Some (rename n), Str v)]) = {}"
    using Cons.prems by auto
  have "make_row_out (zip (map Some ns) (map Str vs')) (acc @ [(Some (rename n), Str v)])
          = Inr ((acc @ [(Some (rename n), Str v)]) @ zip (map Some (map rename ns)) (map Str vs'))"
    using Cons.prems vs by (intro Cons.IH disj) auto
  with step show ?case by (simp add: vs)
qed

lemma rewrite_rows_tab_free:
  assumes "distinct (map rename ns)"
  shows "\<forall>r\<in>set rows. r \<noteq> [] \<longrightarrow> length r = length ns \<Longrightarrow>
         \<forall>r\<in>set rows. \<forall>v\<in>set r. CHR 0x09 \<notin> set v \<Longrightarrow>
         rewrite_rows ns (map rename ns) rows ofh i
           = (ofh @ filter (\<lambda>r. r \<noteq> []) rows,
              Inr (bump i (length (filter (\<lambda>r. r \<noteq> []) rows))))"
proof (induction rows arbitrary: ofh i)
  case Nil
  then show ?case by (simp add: bump_def)
next
  case (Cons r rows)
  have IH: "\<And>ofh i. rewrite_rows ns (map rename ns) rows ofh i
           = (ofh @ filter (\<lambda>r. r \<noteq> []) rows,
              Inr (bump i (length (filter (\<lambda>r. r \<noteq> []) rows))))"
    using Cons by simp
  show ?case
  proof (cases "r = []")
    case True
    then show ?thesis by (simp add: IH)
  next
    case False
    then have len: "length r = length ns" using Cons.prems by simp
    have tabs: "\<forall>v\<in>set r. CHR 0x09 \<notin> set v" using Cons.prems by simp
    have dist: "distinct ns" using assms by (simp add: distinct_map)
    have "make_row_out (dict_row ns r) [] = Inr (zip (map Some (map rename ns)) (map Str r))"
      using make_row_out_tab_free [OF assms _ len tabs, of "[]"] len
      by (simp add: dict_row_rect [OF dist])
    moreover have "dict_to_list (map rename ns) (zip (map Some (map rename ns)) (map Str r)) = Inr r"
      using len by (intro dict_to_list_zip assms) simp
    ultimately show ?thesis
      using False by (simp add: IH bump_def split: option.splits)
  qed
qed

subsection \<open>The returned count\<close>

lemma rewrite_rows_count:
  "rewrite_rows fn fo rs ofh i = (ofh', Inr i') \<Longrightarrow>
   length ofh' + (case i of None \<Rightarrow> 0 | Some j \<Rightarrow> j + 1)
     = length ofh + (case i' of None \<Rightarrow> 0 | Some j \<Rightarrow> j + 1)"
proof (induction rs arbitrary: ofh i)
  case Nil
  then show ?case by simp
next
  case (Cons r rs)
  show ?case
  proof (cases "r = []")
    case True
    with Cons show ?thesis by simp
  next
    case False
    with Cons.prems obtain row_out texts where
      "rewrite_rows fn fo rs (ofh @ [texts]) (Some (case i of None \<Rightarrow> 0 | Some j \<Rightarrow> j + 1))
         = (ofh', Inr i')"
      by (auto split: sum.splits)
    from Cons.IH [OF this] show ?thesis by (simp split: option.splits)
  qed
qed

lemma rewrite_csv_count:
  "rewrite_csv ifh ofh = (ofh', Inr n) \<Longrightarrow> length ofh' = length ofh + 1 + n"
proof -
  assume a: "rewrite_csv ifh ofh = (ofh', Inr n)"
  then obtain fieldnames rows where ifh: "ifh = fieldnames # rows"
    by (cases ifh) (auto simp: rewrite_csv_def)
  obtain out res where
    rr: "rewrite_rows fieldnames (map rename fieldnames) rows (ofh @ [map rename fieldnames]) None
           = (out, res)"
    by (cases "rewrite_rows fieldnames (map rename fieldnames) rows
                 (ofh @ [map rename fieldnames]) None") auto
  from a ifh rr have "out = ofh'" and "res = Inr (Some (n - 1))" and "0 < n"
    by (auto simp: rewrite_csv_def Let_def split: sum.splits option.splits)
  with rewrite_rows_count [of fieldnames "map rename fieldnames" rows
      "ofh @ [map rename fieldnames]" None ofh' "Some (n - 1)"] rr
  show ?thesis by simp
qed

text \<open>
  Claim C2.  The claim wants the count 0 for a stream that holds a header and no data
  row.  The code writes the header and then raises: the loop body never ran, so
  \<open>i\<close> in \<open>return i + 1\<close> is unbound.  (When the call does return, the count is the
  number of data rows written: \<open>rewrite_csv_count\<close>.)
\<close>

theorem rewrite_csv_header_only:
  "rewrite_csv [[''FCC'', ''Project Code'', ''Notes'']] []
     = ([[''LM2'', ''PROJECTS'', ''Notes'']], Inl UnboundLocalError)"
  by (simp add: rewrite_csv_def rename_def FIELD_MAPPINGS_def)

text \<open>
  Claim C3.  The claim wants every tab of every field replaced by a space, also in the
  renamed columns.  The code replaces tabs in the columns it does not rename only: the
  value of the renamed column \<open>FCC\<close> keeps its tab, the value of \<open>Notes\<close> loses it.
\<close>

theorem rewrite_csv_mapped_column_keeps_tab:
  "rewrite_csv [[''FCC'', ''Notes''],
                [''A'' @ [CHR 0x09] @ ''1'', ''has'' @ [CHR 0x09] @ ''tab'']] []
     = ([[''LM2'', ''Notes''], [''A'' @ [CHR 0x09] @ ''1'', ''has tab'']], Inr 1)"
  by (simp add: rewrite_csv_def rename_def FIELD_MAPPINGS_def dict_row_def setitem_def
        dict_to_list_def replace_tabs_def)

text \<open>
  Claim C4.  Whatever the input, the file written is the header with every name of the
  rename table replaced, in place, by its mapped name and every other name kept,
  followed by one row per data row processed: the texts stored in that row's
  \<open>row_out\<close> under the names of the written header, in the header's order.  A name
  of the table does not occur in the written header (so \<open>FCC\<close> gives \<open>LM2\<close> at its
  position and never \<open>FCC\<close>).  The keys of every \<open>row_out\<close> are the renamed keys of
  the row read; they are names of the written header, none a name of the table.  When
  the renamed names are pairwise different, the rows as wide as the header and free of
  tabs, every value is written at the position it was read at, under the renamed name.
\<close>


theorem rewrite_csv_renames:
  "fst (rewrite_csv (fieldnames # rows) ofh)
     = ofh @ [map rename fieldnames]
         @ map (written_row (map rename fieldnames)) (row_outs fieldnames rows)
   \<and> (\<forall>i < length fieldnames.
        case map_of FIELD_MAPPINGS (fieldnames ! i) of
          Some mapped \<Rightarrow> map rename fieldnames ! i = mapped
                          \<and> fieldnames ! i \<notin> set (map rename fieldnames)
        | None \<Rightarrow> map rename fieldnames ! i = fieldnames ! i)
   \<and> (\<forall>i < length fieldnames. fieldnames ! i = ''FCC'' \<longrightarrow>
        map rename fieldnames ! i = ''LM2'' \<and> ''FCC'' \<notin> set (map rename fieldnames))
   \<and> (\<forall>row_out \<in> set (row_outs fieldnames rows).
        (\<exists>r \<in> set rows. r \<noteq> [] \<and> make_row_out (dict_row fieldnames r) [] = Inr row_out
            \<and> fst ` set row_out = map_option rename ` fst ` set (dict_row fieldnames r))
        \<and> fst ` set row_out \<subseteq> Some ` set (map rename fieldnames)
        \<and> (\<forall>n m. map_of FIELD_MAPPINGS n = Some m \<longrightarrow> Some n \<notin> fst ` set row_out))
   \<and> (\<forall>r row_out. make_row_out (dict_row fieldnames r) [] = Inr row_out \<longrightarrow>
        fst ` set row_out = map_option rename ` fst ` set (dict_row fieldnames r)
        \<and> (\<forall>n m. map_of FIELD_MAPPINGS n = Some m \<longrightarrow> Some n \<notin> fst ` set row_out))
   \<and> (distinct (map rename fieldnames)
        \<and> (\<forall>r\<in>set rows. r \<noteq> [] \<longrightarrow> length r = length fieldnames)
        \<and> (\<forall>r\<in>set rows. \<forall>v\<in>set r. CHR 0x09 \<notin> set v) \<longrightarrow>
        fst (rewrite_csv (fieldnames # rows) ofh)
          = ofh @ [map rename fieldnames] @ filter (\<lambda>r. r \<noteq> []) rows)"
proof -
  have keys: "\<And>r row_out. make_row_out (dict_row fieldnames r) [] = Inr row_out \<Longrightarrow>
        fst ` set row_out = map_option rename ` fst ` set (dict_row fieldnames r)
        \<and> (\<forall>n m. map_of FIELD_MAPPINGS n = Some m \<longrightarrow> Some n \<notin> fst ` set row_out)"
  proof (intro allI impI conjI)
    fix r row_out n m
    assume ok: "make_row_out (dict_row fieldnames r) [] = Inr row_out"
    show k: "fst ` set row_out = map_option rename ` fst ` set (dict_row fieldnames r)"
      using make_row_out_keys [OF ok] by simp
    assume nm: "map_of FIELD_MAPPINGS n = Some m"
    show "Some n \<notin> fst ` set row_out"
    proof
      assume "Some n \<in> fst ` set row_out"
      then obtain k' where "Some n = map_option rename k'" unfolding k by blast
      then obtain x where "rename x = n" by (cases k') auto
      with rename_not_key [OF nm] show False by blast
    qed
  qed
  have c1: "fst (rewrite_csv (fieldnames # rows) ofh)
     = ofh @ [map rename fieldnames]
         @ map (written_row (map rename fieldnames)) (row_outs fieldnames rows)"
    by (rule rewrite_csv_written)
  have c2: "\<forall>i < length fieldnames.
        case map_of FIELD_MAPPINGS (fieldnames ! i) of
          Some mapped \<Rightarrow> map rename fieldnames ! i = mapped
                          \<and> fieldnames ! i \<notin> set (map rename fieldnames)
        | None \<Rightarrow> map rename fieldnames ! i = fieldnames ! i"
  proof (intro allI impI)
    fix i assume i: "i < length fieldnames"
    show "case map_of FIELD_MAPPINGS (fieldnames ! i) of
          Some mapped \<Rightarrow> map rename fieldnames ! i = mapped
                          \<and> fieldnames ! i \<notin> set (map rename fieldnames)
        | None \<Rightarrow> map rename fieldnames ! i = fieldnames ! i"
    proof (cases "map_of FIELD_MAPPINGS (fieldnames ! i)")
      case None
      with i show ?thesis by (simp add: rename_def)
    next
      case (Some mapped)
      have "fieldnames ! i \<notin> set (map rename fieldnames)"
        using rename_not_key [OF Some] by (metis (no_types) imageE list.set_map)
      with i Some show ?thesis by (simp add: rename_def)
    qed
  qed
  have fcc: "map_of FIELD_MAPPINGS ''FCC'' = Some ''LM2''"
    by (simp add: FIELD_MAPPINGS_def)
  have c3: "\<forall>i < length fieldnames. fieldnames ! i = ''FCC'' \<longrightarrow>
        map rename fieldnames ! i = ''LM2'' \<and> ''FCC'' \<notin> set (map rename fieldnames)"
  proof (intro allI impI)
    fix i assume i: "i < length fieldnames" and f: "fieldnames ! i = ''FCC''"
    have "''FCC'' \<notin> set (map rename fieldnames)"
      using rename_not_key [OF fcc] by (metis (no_types) imageE list.set_map)
    moreover have "rename ''FCC'' = ''LM2''" by (simp add: rename_def fcc)
    ultimately show "map rename fieldnames ! i = ''LM2'' \<and> ''FCC'' \<notin> set (map rename fieldnames)"
      using i f by simp
  qed
  have c4: "\<forall>row_out \<in> set (row_outs fieldnames rows).
        (\<exists>r \<in> set rows. r \<noteq> [] \<and> make_row_out (dict_row fieldnames r) [] = Inr row_out
            \<and> fst ` set row_out = map_option rename ` fst ` set (dict_row fieldnames r))
        \<and> fst ` set row_out \<subseteq> Some ` set (map rename fieldnames)
        \<and> (\<forall>n m. map_of FIELD_MAPPINGS n = Some m \<longrightarrow> Some n \<notin> fst ` set row_out)"
  proof
    fix row_out assume "row_out \<in> set (row_outs fieldnames rows)"
    from row_outs_source [OF this] obtain r where
      r: "r \<in> set rows" "r \<noteq> []" and ok: "make_row_out (dict_row fieldnames r) [] = Inr row_out"
      by blast
    from keys [OF ok] row_out_keys [OF ok] r ok
    show "(\<exists>r \<in> set rows. r \<noteq> [] \<and> make_row_out (dict_row fieldnames r) [] = Inr row_out
            \<and> fst ` set row_out = map_option rename ` fst ` set (dict_row fieldnames r))
        \<and> fst ` set row_out \<subseteq> Some ` set (map rename fieldnames)
        \<and> (\<forall>n m. map_of FIELD_MAPPINGS n = Some m \<longrightarrow> Some n \<notin> fst ` set row_out)"
      by blast
  qed
  have c5: "\<forall>r row_out. make_row_out (dict_row fieldnames r) [] = Inr row_out \<longrightarrow>
        fst ` set row_out = map_option rename ` fst ` set (dict_row fieldnames r)
        \<and> (\<forall>n m. map_of FIELD_MAPPINGS n = Some m \<longrightarrow> Some n \<notin> fst ` set row_out)"
    using keys by blast
  have c6: "distinct (map rename fieldnames)
        \<and> (\<forall>r\<in>set rows. r \<noteq> [] \<longrightarrow> length r = length fieldnames)
        \<and> (\<forall>r\<in>set rows. \<forall>v\<in>set r. CHR 0x09 \<notin> set v) \<longrightarrow>
        fst (rewrite_csv (fieldnames # rows) ofh)
          = ofh @ [map rename fieldnames] @ filter (\<lambda>r. r \<noteq> []) rows"
  proof
    assume a: "distinct (map rename fieldnames)
        \<and> (\<forall>r\<in>set rows. r \<noteq> [] \<longrightarrow> length r = length fieldnames)
        \<and> (\<forall>r\<in>set rows. \<forall>v\<in>set r. CHR 0x09 \<notin> set v)"
    then have d: "distinct (map rename fieldnames)"
      and w: "\<forall>r\<in>set rows. r \<noteq> [] \<longrightarrow> length r = length fieldnames"
      and t: "\<forall>r\<in>set rows. \<forall>v\<in>set r. CHR 0x09 \<notin> set v" by blast+
    show "fst (rewrite_csv (fieldnames # rows) ofh)
          = ofh @ [map rename fieldnames] @ filter (\<lambda>r. r \<noteq> []) rows"
      using rewrite_rows_tab_free [OF d w t, of "ofh @ [map rename fieldnames]" None]
      by (simp add: rewrite_csv_def Let_def split: option.splits)
  qed
  show ?thesis
    by (rule conjI [OF c1 conjI [OF c2 conjI [OF c3 conjI [OF c4 conjI [OF c5 c6]]]]])
qed

theorem rewrite_csv_renames_witness:
  "0 < length [''FCC'', ''Project Code'', ''Notes'']
   \<and> map rename [''FCC'', ''Project Code'', ''Notes''] ! 0 = ''LM2''
   \<and> ''FCC'' \<notin> set (map rename [''FCC'', ''Project Code'', ''Notes''])
   \<and> distinct (map rename [''FCC'', ''Project Code'', ''Notes''])
   \<and> row_outs [''FCC'', ''Project Code'', ''Notes''] [[''A1'', ''P200'', ''paid'']]
       = [[(Some ''LM2'', Str ''A1''), (Some ''PROJECTS'', Str ''P200''),
           (Some ''Notes'', Str ''paid'')]]
   \<and> fst ` set [(Some ''LM2'', Str ''A1''), (Some ''PROJECTS'', Str ''P200''),
                  (Some ''Notes'', Str ''paid'')]
       \<subseteq> Some ` set (map rename [''FCC'', ''Project Code'', ''Notes''])
   \<and> Some ''FCC'' \<notin> fst ` set [(Some ''LM2'', Str ''A1''), (Some ''PROJECTS'', Str ''P200''),
                                  (Some ''Notes'', Str ''paid'')]
   \<and> fst (rewrite_csv [[''FCC'', ''Project Code'', ''Notes''], [''A1'', ''P200'', ''paid'']] [])
       = [[''LM2'', ''PROJECTS'', ''Notes''], [''A1'', ''P200'', ''paid'']]"
proof -
  let ?names = "[''FCC'', ''Project Code'', ''Notes'']"
  let ?r = "[''A1'', ''P200'', ''paid'']"
  let ?out = "[(Some ''LM2'', Str ''A1''), (Some ''PROJECTS'', Str ''P200''),
               (Some ''Notes'', Str ''paid'')]"
  note all = rewrite_csv_renames [of ?names "[?r]" "[]"]
  have pos: "0 < length ?names" by simp
  have at: "?names ! 0 = ''FCC''" by simp
  have ren: "map rename ?names = [''LM2'', ''PROJECTS'', ''Notes'']"
    by (simp add: rename_def FIELD_MAPPINGS_def)
  have dist: "distinct (map rename ?names)" unfolding ren by simp
  have rect: "\<forall>r\<in>set [?r]. r \<noteq> [] \<longrightarrow> length r = length ?names" by simp
  have tabs: "\<forall>r\<in>set [?r]. \<forall>v\<in>set r. CHR 0x09 \<notin> set v" by simp
  have ros: "row_outs ?names [?r] = [?out]"
    by (simp add: dict_row_def setitem_def FIELD_MAPPINGS_def replace_tabs_def)
  have mem: "?out \<in> set (row_outs ?names [?r])" unfolding ros by simp
  have fccm: "map_of FIELD_MAPPINGS ''FCC'' = Some ''LM2''" by (simp add: FIELD_MAPPINGS_def)
  note a3 = all [THEN conjunct2, THEN conjunct2, THEN conjunct1]
  note a4 = all [THEN conjunct2, THEN conjunct2, THEN conjunct2, THEN conjunct1]
  note a6 = all [THEN conjunct2, THEN conjunct2, THEN conjunct2, THEN conjunct2, THEN conjunct2]
  from a3 [rule_format, OF pos at]
  have fcc: "map rename ?names ! 0 = ''LM2'' \<and> ''FCC'' \<notin> set (map rename ?names)" .
  note b4 = bspec [OF a4 mem]
  from b4 have sub: "fst ` set ?out \<subseteq> Some ` set (map rename ?names)"
    by (rule conjunct2 [THEN conjunct1])
  from b4 have "\<forall>n m. map_of FIELD_MAPPINGS n = Some m \<longrightarrow> Some n \<notin> fst ` set ?out"
    by (rule conjunct2 [THEN conjunct2])
  then have "map_of FIELD_MAPPINGS ''FCC'' = Some ''LM2'' \<longrightarrow> Some ''FCC'' \<notin> fst ` set ?out"
    by (rule allE [where x = "''FCC''"]) (rule allE [where x = "''LM2''"])
  then have nk: "Some ''FCC'' \<notin> fst ` set ?out" using fccm by (rule mp)
  from dist rect tabs
  have "fst (rewrite_csv [?names, ?r] []) = [] @ [map rename ?names] @ filter (\<lambda>r. r \<noteq> []) [?r]"
    by (intro a6 [rule_format] conjI)
  then have out: "fst (rewrite_csv [?names, ?r] []) = [[''LM2'', ''PROJECTS'', ''Notes''], ?r]"
    unfolding ren by simp
  from fcc have f1: "map rename ?names ! 0 = ''LM2''" and f2: "''FCC'' \<notin> set (map rename ?names)"
    by (rule conjunct1, rule conjunct2)
  show ?thesis
    by (rule conjI [OF pos conjI [OF f1 conjI [OF f2 conjI [OF dist conjI [OF ros
          conjI [OF sub conjI [OF nk out]]]]]]])
qed

text \<open>
  Claim C7, as amended.  The round trip needs more than the claim asks for: the column
  names must be pairwise different and every row that is not a blank line must have as
  many fields as the header.  Then the file written is the header followed by the rows
  that are not blank lines, unchanged and in order.
\<close>

theorem rewrite_csv_round_trip:
  assumes "\<forall>n\<in>set fieldnames. map_of FIELD_MAPPINGS n = None"
      and "\<forall>r\<in>set rows. \<forall>v\<in>set r. CHR 0x09 \<notin> set v"
      and "distinct fieldnames"
      and "\<forall>r\<in>set rows. r \<noteq> [] \<longrightarrow> length r = length fieldnames"
  shows "fst (rewrite_csv (fieldnames # rows) []) = fieldnames # filter (\<lambda>r. r \<noteq> []) rows"
proof -
  have hdr: "map rename fieldnames = fieldnames"
    using assms(1) by (simp add: rename_unmapped map_idI)
  have "map (map replace_tabs) (filter (\<lambda>r. r \<noteq> []) rows) = filter (\<lambda>r. r \<noteq> []) rows"
  proof (rule map_idI)
    fix r assume "r \<in> set (filter (\<lambda>r. r \<noteq> []) rows)"
    then have "\<forall>v\<in>set r. CHR 0x09 \<notin> set v" using assms(2) by auto
    then show "map replace_tabs r = r" by (intro map_idI) (simp add: replace_tabs_id)
  qed
  then show ?thesis
    using rewrite_rows_plain [OF assms(1,3,4), of "[fieldnames]" None]
    by (simp add: rewrite_csv_def hdr split: option.splits)
qed


theorem rewrite_csv_round_trip_witness:
  "list_all (\<lambda>n. map_of FIELD_MAPPINGS n = None) [''Payee'', ''Amount'']
   \<and> distinct [''Payee'', ''Amount'']
   \<and> fst (rewrite_csv [[''Payee'', ''Amount''], [''Ann'', ''10''], [], [''Bob'', ''7'']] [])
       = [[''Payee'', ''Amount''], [''Ann'', ''10''], [''Bob'', ''7'']]"
proof -
  have a: "\<forall>n\<in>set [''Payee'', ''Amount'']. map_of FIELD_MAPPINGS n = None"
    by (simp add: FIELD_MAPPINGS_def)
  have b: "\<forall>r\<in>set [[''Ann'', ''10''], [], [''Bob'', ''7'']]. \<forall>v\<in>set r. CHR 0x09 \<notin> set v"
    by simp
  have c: "distinct [''Payee'', ''Amount'']" by simp
  have d: "\<forall>r\<in>set [[''Ann'', ''10''], [], [''Bob'', ''7'']].
             r \<noteq> [] \<longrightarrow> length r = length [''Payee'', ''Amount'']"
    by simp
  show ?thesis
    using a c rewrite_csv_round_trip [OF a b c d] by (simp add: list_all_iff)
qed

text \<open>
  The claim as stated fails: with the column name \<open>A\<close> twice, no name in the rename
  table and no tab anywhere, the row \<open>1, 2\<close> is written as \<open>2, 2\<close>.
\<close>

theorem rewrite_csv_round_trip_counterexample:
  "map_of FIELD_MAPPINGS ''A'' = None
   \<and> CHR 0x09 \<notin> set ''1'' \<and> CHR 0x09 \<notin> set ''2''
   \<and> rewrite_csv [[''A'', ''A''], [''1'', ''2'']] [] = ([[''A'', ''A''], [''2'', ''2'']], Inr 1)
   \<and> [[''A'', ''A''], [''2'', ''2'']] \<noteq> [[''A'', ''A''], [''1'', ''2'']]"
  by (simp add: rewrite_csv_def rename_def FIELD_MAPPINGS_def dict_row_def setitem_def
        dict_to_list_def replace_tabs_def)

section \<open>The non-empty-file filter\<close>

lemma list_present_eq:
  "list_present client specs w =
     (concat (map (\<lambda>s. replicate (length (client (ls_command s))) s) specs),
      w\<lparr>issued := issued w @ map ls_command specs\<rparr>)"
  by (induction specs arbitrary: w) (simp_all add: run_command_def ls_command_def)

lemma count_lines_step:
  "client (wc_command spec) = line # rest \<Longrightarrow>
   count_lines client (spec # specs) w =
     (if length (split line) = 2 \<and> split line ! 0 \<noteq> ''1''
      then (case count_lines client specs (w\<lparr>issued := issued w @ [wc_command spec]\<rparr>) of
              Inl e \<Rightarrow> Inl e
            | Inr (retval, w2) \<Rightarrow> Inr (spec # retval, w2))
      else count_lines client specs
             (record_found_not_copied (remote_path spec)
                (w\<lparr>issued := issued w @ [wc_command spec]\<rparr>)))"
  by (simp add: wc_command_def run_command_def Let_def)

lemma count_lines_stop:
  "client (wc_command spec) = [] \<Longrightarrow>
   count_lines client (spec # specs) w
     = Inl (StopIteration, w\<lparr>issued := issued w @ [wc_command spec]\<rparr>)"
  by (simp add: wc_command_def run_command_def)











lemma split_no_break_space:
  "split (''2 my'' @ [CHR 0xA0] @ ''dir/cr-cope.csv'') = [''2'', ''my'', ''dir/cr-cope.csv'']"
  by (simp add: split_def is_space_def)

lemma split_next_line:
  "split (''2 my'' @ [CHR 0x85] @ ''dir/cr-cope.csv'') = [''2'', ''my'', ''dir/cr-cope.csv'']"
  by (simp add: split_def is_space_def)



text \<open>
  The claim as stated fails: the listed file \<open>my dir/cr-cope.csv\<close>, for which \<open>wc\<close>
  prints the count 5, is kept out of the copy set and recorded as \<open>found but not
  copied\<close>, because its line has three parts.
\<close>

theorem filter_by_line_count_counterexample:
  "blank_path_host (ls_command spaced_spec) = [''my dir/cr-cope.csv'']
   \<and> hd (blank_path_host (wc_command spaced_spec)) = ''5 my dir/cr-cope.csv''
   \<and> starts_with_count ''5 my dir/cr-cope.csv'' 5
   \<and> available_non_empty_files blank_path_host [spaced_spec] empty_world
       = Inr ([],
              \<lparr>issued = [''ls my dir/cr-cope.csv'', ''wc -l my dir/cr-cope.csv''],
               transfers = [FoundNotCopied ''my dir/cr-cope.csv''],
               local_files = Map.empty\<rparr>)"
  by (simp add: available_non_empty_files_def run_command_def blank_path_host_def
        spaced_spec_def empty_world_def split_def record_found_not_copied_def is_space_def
        ls_command_def wc_command_def starts_with_count_def str_nat.simps digit_char_def)




section \<open>Moving the remote files aside\<close>

lemma fetches_simps [simp]:
  "fetches []"
  "fetches (cs @ ds) \<longleftrightarrow> fetches cs \<and> fetches ds"
  by (simp_all add: fetches_def)

lemma fetches_Cons: "fetches (c # cs) \<longleftrightarrow> take 3 c \<noteq> ''mv '' \<and> fetches cs"
  by (simp add: fetches_def)

lemma fetches_ls: "fetches (map ls_command specs)"
  by (simp add: fetches_def list_all_iff ls_command_def)

lemma fetches_wc_single: "fetches [wc_command spec]"
  by (simp add: fetches_def wc_command_def)

text \<open>Whether a stage returns or raises, it leaves the commands sent before it in
  place and adds none that moves a file.\<close>

lemma count_lines_issued:
  "count_lines client temp w = Inr (retval, w') \<or> count_lines client temp w = Inl (e, w') \<Longrightarrow>
   \<exists>cs. issued w' = issued w @ cs \<and> fetches cs"
proof (induction temp arbitrary: w retval)
  case Nil
  then show ?case by auto
next
  case (Cons spec temp)
  let ?w1 = "w\<lparr>issued := issued w @ [wc_command spec]\<rparr>"
  have one: "fetches [wc_command spec]" by (rule fetches_wc_single)
  show ?case
  proof (cases "client (wc_command spec)")
    case Nil
    with Cons.prems have "w' = ?w1"
      by (simp add: count_lines_stop del: count_lines.simps)
    then have "issued w' = issued w @ [wc_command spec]" by simp
    with one show ?thesis by blast
  next
    case out: (Cons line rest)
    have "\<exists>rv w0. (count_lines client temp w0 = Inr (rv, w') \<or> count_lines client temp w0 = Inl (e, w'))
            \<and> issued w0 = issued w @ [wc_command spec]"
    proof (cases "length (split line) = 2 \<and> split line ! 0 \<noteq> ''1''")
      case True
      with Cons.prems
      have "(\<exists>rv. count_lines client temp ?w1 = Inr (rv, w')) \<or> count_lines client temp ?w1 = Inl (e, w')"
        by (auto simp: count_lines_step [of client spec, OF out] split: sum.splits
                 simp del: count_lines.simps)
      then obtain rv where
        "count_lines client temp ?w1 = Inr (rv, w') \<or> count_lines client temp ?w1 = Inl (e, w')"
        by blast
      moreover have "issued ?w1 = issued w @ [wc_command spec]" by simp
      ultimately show ?thesis by blast
    next
      case False
      let ?w2 = "record_found_not_copied (remote_path spec) ?w1"
      have "count_lines client (spec # temp) w = count_lines client temp ?w2"
        by (subst count_lines_step [of client spec, OF out]) (simp only: False if_False)
      with Cons.prems
      have "count_lines client temp ?w2 = Inr (retval, w') \<or> count_lines client temp ?w2 = Inl (e, w')"
        by (simp del: count_lines.simps)
      moreover have "issued ?w2 = issued w @ [wc_command spec]"
        by (simp add: record_found_not_copied_def)
      ultimately show ?thesis by blast
    qed
    then obtain rv w0 where
      rest: "count_lines client temp w0 = Inr (rv, w') \<or> count_lines client temp w0 = Inl (e, w')"
      and w0: "issued w0 = issued w @ [wc_command spec]" by blast
    from Cons.IH [OF rest] obtain cs where "issued w' = issued w0 @ cs" "fetches cs" by blast
    with w0 one have "issued w' = issued w @ ([wc_command spec] @ cs)
                      \<and> fetches ([wc_command spec] @ cs)"
      by (simp add: fetches_Cons)
    then show ?thesis by blast
  qed
qed

lemma available_issued:
  assumes "available_non_empty_files client specs w = Inr (retval, w')
           \<or> available_non_empty_files client specs w = Inl (e, w')"
  shows "\<exists>cs. issued w' = issued w @ cs \<and> fetches cs"
proof -
  let ?w1 = "w\<lparr>issued := issued w @ map ls_command specs\<rparr>"
  from assms obtain temp where
    "count_lines client temp ?w1 = Inr (retval, w') \<or> count_lines client temp ?w1 = Inl (e, w')"
    by (auto simp: available_non_empty_files_def list_present_eq)
  from count_lines_issued [OF this] obtain cs where "issued w' = issued ?w1 @ cs" "fetches cs"
    by blast
  then have "issued w' = issued w @ (map ls_command specs @ cs)
             \<and> fetches (map ls_command specs @ cs)"
    using fetches_ls by simp
  then show ?thesis by blast
qed

lemma copy_files_to_host_issued:
  "copy_files_to_host csv_reader client specs w = Inr (retval, w')
   \<or> copy_files_to_host csv_reader client specs w = Inl (e, w') \<Longrightarrow>
   \<exists>cs. issued w' = issued w @ cs \<and> fetches cs"
proof (induction specs arbitrary: w retval)
  case Nil
  then show ?case by auto
next
  case (Cons spec specs)
  let ?cat = "''cat '' @ remote_path spec"
  have one: "fetches [?cat]" by (simp add: fetches_def)
  obtain ofh result where rw: "rewrite_csv (csv_reader (client ?cat)) [] = (ofh, result)"
    by (cases "rewrite_csv (csv_reader (client ?cat)) []") auto
  let ?w2 = "w\<lparr>local_files := (local_files w)(local_path spec \<mapsto> []),
               issued := issued w @ [?cat]\<rparr>"
  let ?w3 = "?w2\<lparr>local_files := (local_files ?w2)(local_path spec \<mapsto> ofh)\<rparr>"
  show ?case
  proof (cases result)
    case (Inl x)
    with Cons.prems rw have "w' = ?w3"
      by (auto simp: run_command_def Let_def)
    then have "issued w' = issued w @ [?cat]" by simp
    with one show ?thesis by blast
  next
    case (Inr records)
    define w3 where "w3 = record_copy (remote_path spec) records ?w3"
    have w3: "issued w3 = issued w @ [?cat]"
      by (simp add: w3_def record_copy_def)
    from Cons.prems rw Inr
    have "(\<exists>rv. copy_files_to_host csv_reader client specs w3 = Inr (rv, w'))
          \<or> copy_files_to_host csv_reader client specs w3 = Inl (e, w')"
      by (auto simp: run_command_def Let_def w3_def split: sum.splits)
    then obtain rv where
      "copy_files_to_host csv_reader client specs w3 = Inr (rv, w')
       \<or> copy_files_to_host csv_reader client specs w3 = Inl (e, w')"
      by blast
    from Cons.IH [OF this] obtain cs where "issued w' = issued w3 @ cs" "fetches cs" by blast
    with w3 one have "issued w' = issued w @ ([?cat] @ cs) \<and> fetches ([?cat] @ cs)"
      by (simp add: fetches_Cons)
    then show ?thesis by blast
  qed
qed

lemma copy_files_to_share_issued:
  "copy_files_to_share specs w = Inr w' \<or> copy_files_to_share specs w = Inl (e, w') \<Longrightarrow>
   issued w' = issued w"
  by (induction specs arbitrary: w) (auto split: option.splits)

lemma copy_phase_issued:
  assumes "copy_phase csv_reader client specs w = Inr w1
           \<or> copy_phase csv_reader client specs w = Inl (e, w1)"
  shows "\<exists>cs. issued w1 = issued w @ cs \<and> fetches cs"
proof (cases "available_non_empty_files client specs w")
  case (Inl x)
  with assms have "available_non_empty_files client specs w = Inl (e, w1)"
    by (auto simp: copy_phase_def)
  then show ?thesis using available_issued by blast
next
  case (Inr x)
  then obtain files_wanted wa where
    av: "available_non_empty_files client specs w = Inr (files_wanted, wa)"
    by (cases x) auto
  from available_issued [of client specs w files_wanted wa] av
  obtain cs where cs: "issued wa = issued w @ cs" "fetches cs" by blast
  show ?thesis
  proof (cases "length files_wanted > 0")
    case False
    with assms av have "w1 = wa" by (simp add: copy_phase_def)
    with cs show ?thesis by blast
  next
    case True
    show ?thesis
    proof (cases "copy_files_to_host csv_reader client files_wanted wa")
      case (Inl y)
      with assms av True have "copy_files_to_host csv_reader client files_wanted wa = Inl (e, w1)"
        by (auto simp: copy_phase_def)
      with copy_files_to_host_issued [of csv_reader client files_wanted wa _ w1 e]
      obtain ds where "issued w1 = issued wa @ ds" "fetches ds" by blast
      with cs have "issued w1 = issued w @ (cs @ ds) \<and> fetches (cs @ ds)" by simp
      then show ?thesis by blast
    next
      case (Inr y)
      then obtain copied wb where
        host: "copy_files_to_host csv_reader client files_wanted wa = Inr (copied, wb)"
        by (cases y) auto
      with assms av True have
        share: "copy_files_to_share copied wb = Inr w1 \<or> copy_files_to_share copied wb = Inl (e, w1)"
        by (auto simp: copy_phase_def)
      from copy_files_to_host_issued [of csv_reader client files_wanted wa copied wb] host
      obtain ds where "issued wb = issued wa @ ds" "fetches ds" by blast
      with cs copy_files_to_share_issued [OF share]
      have "issued w1 = issued w @ (cs @ ds) \<and> fetches (cs @ ds)" by simp
      then show ?thesis by blast
    qed
  qed
qed





lemma mv_not_fetch: "fetches cs \<Longrightarrow> mv_command spec \<notin> set cs"
  by (auto simp: fetches_def list_all_iff mv_command_def)


lemma example_configuration: "get_configuration example_ini = Inr example_settings"
  by (simp add: get_configuration_def example_ini_def example_settings_def)

lemma example_prospective:
  "name_prospective_files example_settings ''20250602-1415.txt'' COMPANIES
     = [afl_spec, cope_spec, wpr_spec]"
  by (simp add: name_prospective_files_def example_settings_def COMPANIES_def path_join_def
        afl_spec_def cope_spec_def wpr_spec_def)






lemma no_move_aside_after_exception:
  assumes "copy_check_files config_parser filename csv_reader client w = Inl (e, w')"
  shows "\<exists>cs. issued w' = issued w @ cs \<and> fetches cs
              \<and> count_list (drop (length (issued w)) (issued w')) (mv_command spec) = 0"
proof -
  have "\<exists>cs. issued w' = issued w @ cs \<and> fetches cs"
  proof (cases "get_configuration config_parser")
    case (Inl x)
    with assms have "w' = w" by (simp add: copy_check_files_def)
    then show ?thesis by simp
  next
    case (Inr config)
    with assms have
      "copy_phase csv_reader client (name_prospective_files config filename COMPANIES) w
         = Inl (e, w')"
      by (auto simp: copy_check_files_def Let_def split: sum.splits)
    then show ?thesis using copy_phase_issued by blast
  qed
  then obtain cs where cs: "issued w' = issued w @ cs" "fetches cs" by blast
  then have "count_list (drop (length (issued w)) (issued w')) (mv_command spec) = 0"
    using mv_not_fetch [OF cs(2)] by (simp add: count_list_0_iff)
  with cs show ?thesis by blast
qed

lemma no_newline_run:
  "copy_check_files example_ini ''20250602-1415.txt'' plain_csv_reader no_newline_host empty_world
     = Inl (UnboundLocalError,
            \<lparr>issued = [''ls cr/cr-afl.csv'', ''ls cr/cr-cope.csv'', ''ls cr/cr-wpr.csv'',
                        ''wc -l cr/cr-afl.csv'', ''cat cr/cr-afl.csv''],
             transfers = [],
             local_files = [''/tmp/AFLCIO/20250602-1415.txt'' \<mapsto> [[''LM2'', ''Amount'']]]\<rparr>)"
proof -
  have av: "available_non_empty_files no_newline_host [afl_spec, cope_spec, wpr_spec] empty_world
     = Inr ([afl_spec],
            \<lparr>issued = [''ls cr/cr-afl.csv'', ''ls cr/cr-cope.csv'', ''ls cr/cr-wpr.csv'',
                        ''wc -l cr/cr-afl.csv''],
             transfers = [], local_files = Map.empty\<rparr>)"
    by (simp add: available_non_empty_files_def run_command_def no_newline_host_def
          afl_spec_def cope_spec_def wpr_spec_def empty_world_def split_def is_space_def)
  have cat: "no_newline_host ''cat cr/cr-afl.csv'' = [''FCC,Amount'']"
    by (simp add: no_newline_host_def)
  have rw: "rewrite_csv (plain_csv_reader [''FCC,Amount'']) []
              = ([[''LM2'', ''Amount'']], Inl UnboundLocalError)"
    by (simp add: plain_csv_reader_def rewrite_csv_def rename_def FIELD_MAPPINGS_def)
  have "copy_phase plain_csv_reader no_newline_host [afl_spec, cope_spec, wpr_spec] empty_world
     = Inl (UnboundLocalError,
            \<lparr>issued = [''ls cr/cr-afl.csv'', ''ls cr/cr-cope.csv'', ''ls cr/cr-wpr.csv'',
                        ''wc -l cr/cr-afl.csv'', ''cat cr/cr-afl.csv''],
             transfers = [],
             local_files = [''/tmp/AFLCIO/20250602-1415.txt'' \<mapsto> [[''LM2'', ''Amount'']]]\<rparr>)"
    unfolding copy_phase_def av
    by (simp add: run_command_def afl_spec_def cat rw)
  then show ?thesis
    by (simp add: copy_check_files_def example_configuration example_prospective)
qed



text \<open>
  The claim as stated fails: it speaks of every run.  In the run below \<open>wc -l\<close>
  reports 0 lines for \<open>cr-afl.csv\<close> (a header without its newline), the file passes
  the filter, the rewriter raises on the stream without a data row, and the run ends
  there: three prospective files, and no \<open>mv\<close> among the commands sent.
\<close>

theorem move_aside_once_counterexample:
  "get_configuration example_ini = Inr example_settings
   \<and> name_prospective_files example_settings ''20250602-1415.txt'' COMPANIES
       = [afl_spec, cope_spec, wpr_spec]
   \<and> copy_check_files example_ini ''20250602-1415.txt'' plain_csv_reader no_newline_host
         empty_world
       = Inl (UnboundLocalError,
              \<lparr>issued = [''ls cr/cr-afl.csv'', ''ls cr/cr-cope.csv'', ''ls cr/cr-wpr.csv'',
                          ''wc -l cr/cr-afl.csv'', ''cat cr/cr-afl.csv''],
               transfers = [],
               local_files = [''/tmp/AFLCIO/20250602-1415.txt'' \<mapsto> [[''LM2'', ''Amount'']]]\<rparr>)
   \<and> count_list [''ls cr/cr-afl.csv'', ''ls cr/cr-cope.csv'', ''ls cr/cr-wpr.csv'',
                  ''wc -l cr/cr-afl.csv'', ''cat cr/cr-afl.csv'']
         (mv_command afl_spec) = 0"
  using example_configuration example_prospective no_newline_run
  by (simp add: mv_command_def afl_spec_def)

section \<open>The output converter for time stamps\<close>




lemma days_from_13: "days_from leap 13 = 0"
  by (simp add: days_from_def)




























section \<open>The run of Pipeline A\<close>

lemma pipeline_A_never_completes:
  "snd (copy_fiscal_year_data config debugging conn_db w) \<noteq> None"
  by (simp add: copy_fiscal_year_data_def split: sum.splits prod.splits)

text \<open>
  Claim C9.  With a configuration that has the local directory and the three remote
  values, \<open>copy_fiscal_year_data\<close> ends with a \<open>TypeError\<close>, raised by the \<open>+\<close> of
  a string and the dict \<open>remote_specs\<close>, and leaves the world as it found it: no
  connection, no statement, no file, no remote copy.  (With any other configuration it
  exits; it never completes: \<open>pipeline_A_never_completes\<close>.)
\<close>

theorem pipeline_A_type_error:
  assumes "config ''local'' ''directory'' = Some local_directory"
      and "config ''remote'' ''host'' = Some h"
      and "config ''remote'' ''user'' = Some u"
      and "config ''remote'' ''keyname'' = Some k"
  shows "copy_fiscal_year_data config debugging conn_db w = (w, Some TypeError)"
  using assms by (simp add: copy_fiscal_year_data_def get_configuration_A_def)

theorem pipeline_A_type_error_witness:
  "fiscal_ini ''local'' ''directory'' = Some ''/home/runner/poliops2''
   \<and> copy_fiscal_year_data fiscal_ini True (\<lambda>query params. ([''Date''], [[''x'']]))
         \<lparr>events = [], files = Map.empty\<rparr>
       = (\<lparr>events = [], files = Map.empty\<rparr>, Some TypeError)"
proof -
  have a: "fiscal_ini ''local'' ''directory'' = Some ''/home/runner/poliops2''"
    and b: "fiscal_ini ''remote'' ''host'' = Some ''trfr.example.org''"
    and c: "fiscal_ini ''remote'' ''user'' = Some ''poliops''"
    and d: "fiscal_ini ''remote'' ''keyname'' = Some ''id_rsa''"
    by (simp_all add: fiscal_ini_def)
  from a pipeline_A_type_error [OF a b c d] show ?thesis by simp
qed

end
